theory Spec2Isabelle
  imports Main "HOL-Library.Char_ord" "HOL-Library.List_Lexorder" "HOL-Library.AList"
begin

section \<open>Python values, exceptions and strings\<close>

text \<open>
  The panel handles loosely typed values coming back from the production-tracking
  store. A value of the raw path field is modelled by \<open>pyval\<close>: None, a bool, an int,
  a str, a list, a tuple or a dict (a value of any other type, a float or a set, is
  treated by the code as the dict is: it is neither a str nor a list or tuple). Strings
  are HOL strings; a character is a byte of the UTF-8 encoding, and the whitespace, digit
  and case tests act on ASCII. A raised exception (any class derived from \<open>Exception\<close>)
  is a value \<open>PyException name\<close>.
\<close>

datatype pyval =
    PNone
  | PBool bool
  | PInt int
  | PStr string
  | PList "pyval list"
  | PTuple "pyval list"
  | PDict "(pyval \<times> pyval) list"

datatype exn = PyException string

definition startswith :: "string \<Rightarrow> string \<Rightarrow> bool" where
  "startswith s p = (take (length p) s = p)"

definition endswith :: "string \<Rightarrow> string \<Rightarrow> bool" where
  "endswith s p = (length p \<le> length s \<and> drop (length s - length p) s = p)"

text \<open>\<open>s.split(c)\<close> for a one-character separator: never empty, so \<open>[-1]\<close> and \<open>[0]\<close> are defined.\<close>

fun split_on :: "char \<Rightarrow> string \<Rightarrow> string list" where
  "split_on c [] = [[]]"
| "split_on c (x # xs) =
     (if x = c then [] # split_on c xs
      else (case split_on c xs of [] \<Rightarrow> [[x]] | w # ws \<Rightarrow> (x # w) # ws))"

definition is_digit :: "char \<Rightarrow> bool" where
  "is_digit c = (CHR ''0'' \<le> c \<and> c \<le> CHR ''9'')"

definition is_space :: "char \<Rightarrow> bool" where
  "is_space c = (c \<in> set [CHR 0x09, CHR 0x0A, CHR 0x0B, CHR 0x0C, CHR 0x0D,
                            CHR 0x1C, CHR 0x1D, CHR 0x1E, CHR 0x1F, CHR '' ''])"

definition lower_char :: "char \<Rightarrow> char" where
  "lower_char c = (if CHR ''A'' \<le> c \<and> c \<le> CHR ''Z'' then char_of (of_char c + (32::nat)) else c)"

definition lower :: "string \<Rightarrow> string" where
  "lower s = map lower_char s"

text \<open>\<open>s.strip(chars)\<close>: drop the characters satisfying \<open>P\<close> from both ends.\<close>

definition strip_by :: "(char \<Rightarrow> bool) \<Rightarrow> string \<Rightarrow> string" where
  "strip_by P s = rev (dropWhile P (rev (dropWhile P s)))"

definition strip :: "string \<Rightarrow> string" where
  "strip s = strip_by is_space s"

text \<open>\<open>int(digits)\<close> on a run of decimal digits.\<close>

definition digit_val :: "char \<Rightarrow> int" where
  "digit_val c = int (of_char c) - 48"

definition int_of_digits :: "string \<Rightarrow> int" where
  "int_of_digits ds = foldl (\<lambda>a d. 10 * a + digit_val d) 0 ds"

section \<open>Format tokens (\<open>_get_file_format\<close>)\<close>

definition get_file_format :: "pyval \<Rightarrow> string" where
  "get_file_format path =
     (case path of
        PStr p \<Rightarrow>
          (if p = [] then ''unknown''
           else if endswith p ''.bgeo.sc'' then ''bgeo.sc''
           else if CHR ''.'' \<in> set p then last (split_on CHR ''.'' p)
           else ''unknown'')
      | _ \<Rightarrow> ''unknown'')"

text \<open>
  The specification's words, for comparison: the file extension of a path is the text
  after the last dot of its last component (the part after the last \<open>/\<close>); a last
  component without a dot has no extension.
\<close>

definition after_last :: "char \<Rightarrow> string \<Rightarrow> string" where
  "after_last c s = rev (takeWhile (\<lambda>x. x \<noteq> c) (rev s))"

definition before_last :: "char \<Rightarrow> string \<Rightarrow> string" where
  "before_last c s = rev (drop 1 (dropWhile (\<lambda>x. x \<noteq> c) (rev s)))"

definition file_extension :: "string \<Rightarrow> string option" where
  "file_extension p =
     (let name = after_last CHR ''/'' p
      in if CHR ''.'' \<in> set name then Some (after_last CHR ''.'' name) else None)"

definition format_token_spec :: "pyval \<Rightarrow> string" where
  "format_token_spec path =
     (case path of
        PStr p \<Rightarrow>
          (if endswith p ''.bgeo.sc'' then ''bgeo.sc''
           else (case file_extension p of Some e \<Rightarrow> e | None \<Rightarrow> ''unknown''))
      | _ \<Rightarrow> ''unknown'')"

section \<open>Version records and categorisation\<close>

text \<open>
  A Version record as the store returns it, with the fields the code reads. The path
  field changes shape along the pipeline (raw value, then list of strings), so the
  record is polymorphic in it. \<open>entity\<close> is the linked entity (a dict with type, id and
  name), \<open>None\<close> when the record has none (the source reads it with
  \<open>.get("entity", {})\<close> and tests \<open>not ent\<close>); \<open>category\<close> and \<open>asset_name\<close> are
  \<open>None\<close> until the code sets them. \<open>created_at\<close> is the creation time as a number.
\<close>

record entity_ref =
  ent_type :: string
  ent_id :: int
  ent_name :: string

record 'p version =
  vid :: int
  code :: string
  entity :: "entity_ref option"
  sg_path_to_geometry :: 'p
  sg_image :: string
  created_at :: int
  category :: "string option"
  asset_name :: "string option"

definition ASSET_TYPES :: "string list" where
  "ASSET_TYPES = [''mdl'', ''shd'', ''rig'', ''txt'', ''cgfx-setup'', ''cncpt'', ''assy'']"

definition SHOT_TYPES :: "string list" where
  "SHOT_TYPES = [''anim'', ''cgfx'', ''comp'', ''layout'', ''lgt'', ''mm'', ''matp'',
                 ''paint'', ''roto'', ''assy'']"

text \<open>
  \<open>re.search('(t1|t2|...)', s)\<close> for literal alternatives: the leftmost position at
  which some alternative matches, and there the first alternative in the written order.
  The result is \<open>match.group(1)\<close>, \<open>None\<close> when nothing matches.
\<close>

fun re_search_alt :: "string list \<Rightarrow> string \<Rightarrow> string option" where
  "re_search_alt ts [] = find (\<lambda>t. startswith [] t) ts"
| "re_search_alt ts (c # cs) =
     (case find (\<lambda>t. startswith (c # cs) t) ts of
        Some t \<Rightarrow> Some t
      | None \<Rightarrow> re_search_alt ts cs)"

definition categorize_version :: "'p version \<Rightarrow> 'p version" where
  "categorize_version version_data =
     (let entity_type = (case entity version_data of None \<Rightarrow> [] | Some e \<Rightarrow> ent_type e);
          code = lower (code version_data)
      in if entity_type = ''Asset'' then
           version_data\<lparr>category :=
             Some (case re_search_alt ASSET_TYPES code of Some t \<Rightarrow> t | None \<Rightarrow> ''asset_unknown'')\<rparr>
         else if entity_type = ''Shot'' then
           version_data\<lparr>category :=
             Some (case re_search_alt SHOT_TYPES code of Some t \<Rightarrow> t | None \<Rightarrow> ''shot_unknown'')\<rparr>
         else version_data)"

text \<open>
  The specification's words, for comparison: tokens are tried in their declared order and
  the first one that is a substring of the lower-cased code wins.
\<close>

definition occurs_at :: "string \<Rightarrow> string \<Rightarrow> nat \<Rightarrow> bool" where
  "occurs_at t s i = (i \<le> length s \<and> startswith (drop i s) t)"

definition is_substring :: "string \<Rightarrow> string \<Rightarrow> bool" where
  "is_substring t s = (\<exists>i \<in> {0..length s}. occurs_at t s i)"

definition priority_match :: "string list \<Rightarrow> string \<Rightarrow> string option" where
  "priority_match ts s = find (\<lambda>t. is_substring t s) ts"

section \<open>Version numbers and latest selection\<close>

text \<open>
  The three regular expressions over version segments, written out as scanners.
  \<open>v_digits_here cs\<close> says that \<open>cs\<close> starts with \<open>v\<close> and at least one digit, that is,
  that \<open>v\d+\<close> matches at its start; the greedy \<open>\d+\<close> then takes the whole digit run.
\<close>

definition v_digits_here :: "string \<Rightarrow> bool" where
  "v_digits_here cs = (case cs of v # d # _ \<Rightarrow> v = CHR ''v'' \<and> is_digit d | _ \<Rightarrow> False)"

text \<open>\<open>re.search(r'_v(\d+)', s)\<close>: group 1 of the leftmost match.\<close>

fun re_search_version :: "string \<Rightarrow> string option" where
  "re_search_version [] = None"
| "re_search_version (c # cs) =
     (if c = CHR ''_'' \<and> v_digits_here cs then Some (takeWhile is_digit (tl cs))
      else re_search_version cs)"

definition get_version_number :: "string \<Rightarrow> int" where
  "get_version_number version_code =
     (case re_search_version version_code of Some ds \<Rightarrow> int_of_digits ds | None \<Rightarrow> 0)"

text \<open>\<open>re.search(r'[/_](v\d+)', str(path))\<close>: group 1 of the leftmost match.\<close>

fun extract_version_from_path :: "string \<Rightarrow> string option" where
  "extract_version_from_path [] = None"
| "extract_version_from_path (c # cs) =
     (if (c = CHR ''/'' \<or> c = CHR ''_'') \<and> v_digits_here cs
      then Some (CHR ''v'' # takeWhile is_digit (tl cs))
      else extract_version_from_path cs)"

text \<open>\<open>re.sub(r'_v\d+', repl, s, 1)\<close>: the leftmost match replaced by \<open>repl\<close>, once.\<close>

fun re_sub_version :: "string \<Rightarrow> string \<Rightarrow> string" where
  "re_sub_version repl [] = []"
| "re_sub_version repl (c # cs) =
     (if c = CHR ''_'' \<and> v_digits_here cs then repl @ dropWhile is_digit (tl cs)
      else c # re_sub_version repl cs)"

text \<open>
  The grouping key \<open>(ent.get("type"), ent.get("id"), v.get("category"))\<close> and the
  loop of \<open>find_files\<close> over the dict \<open>latest\<close>. A Python dict keeps its keys in insertion
  order and an assignment to an existing key keeps the key's place, which is what
  \<^const>\<open>AList.update\<close> does on an association list.
\<close>

type_synonym version_key = "string option \<times> int option \<times> string option"

definition key_of :: "'p version \<Rightarrow> version_key" where
  "key_of v = (map_option ent_type (entity v), map_option ent_id (entity v), category v)"

definition latest_step ::
  "(version_key \<times> 'p version) list \<Rightarrow> 'p version \<Rightarrow> (version_key \<times> 'p version) list" where
  "latest_step latest v0 =
     (let v = categorize_version v0;
          key = key_of v;
          curr = get_version_number (code v);
          exist = get_version_number
                    (case map_of latest key of None \<Rightarrow> [] | Some w \<Rightarrow> code w)
      in if map_of latest key = None \<or> curr > exist then AList.update key v latest else latest)"

definition select_latest :: "'p version list \<Rightarrow> 'p version list" where
  "select_latest versions = map snd (foldl latest_step [] versions)"

section \<open>Thumbnail names\<close>

text \<open>
  \<open>re.search(r'filename%3D%22([^%]+?)%22', url)\<close>: after the literal prefix the group
  is a non-empty run without \<open>%\<close>, and \<open>%22\<close> must follow it, so the group is the
  whole run up to the next \<open>%\<close>.
\<close>

fun re_search_filename :: "string \<Rightarrow> string option" where
  "re_search_filename [] = None"
| "re_search_filename (c # cs) =
     (let s = c # cs;
          r = drop (length ''filename%3D%22'') s;
          g = takeWhile (\<lambda>x. x \<noteq> CHR ''%'') r
      in if startswith s ''filename%3D%22'' \<and> g \<noteq> [] \<and>
            startswith (dropWhile (\<lambda>x. x \<noteq> CHR ''%'') r) ''%22''
         then Some g else re_search_filename cs)"

definition is_name_char :: "char \<Rightarrow> bool" where
  "is_name_char c = ((CHR ''a'' \<le> c \<and> c \<le> CHR ''z'') \<or> (CHR ''A'' \<le> c \<and> c \<le> CHR ''Z'') \<or>
                     is_digit c \<or> c = CHR ''_'' \<or> c = CHR ''-'')"

definition extract_filename_from_url :: "string \<Rightarrow> string" where
  "extract_filename_from_url url =
     (if url = [] then ''No Image''
      else (case re_search_filename url of
              Some g \<Rightarrow> map (\<lambda>c. if is_name_char c then c else CHR ''_'')
                          (case split_on CHR ''.'' g of [] \<Rightarrow> [] | w # _ \<Rightarrow> w)
            | None \<Rightarrow> ''Unparsable URL''))"

text \<open>
  \<open>re.sub(r'(_t(?:_\d+)?)$', '', filename)\<close>: \<open>$\<close> matches at the end of the string
  and before a final newline. \<open>thumb_suffix s\<close> gives what is left after a match at the
  start of \<open>s\<close>.
\<close>

definition at_end :: "string \<Rightarrow> bool" where
  "at_end r = (r = [] \<or> r = [CHR 0x0A])"

definition thumb_suffix :: "string \<Rightarrow> string option" where
  "thumb_suffix s =
     (if startswith s ''_t'' then
        (let r = drop 2 s
         in (case r of
               u # ds \<Rightarrow>
                 if u = CHR ''_'' \<and> takeWhile is_digit ds \<noteq> [] \<and> at_end (dropWhile is_digit ds)
                 then Some (dropWhile is_digit ds)
                 else if at_end r then Some r else None
             | [] \<Rightarrow> Some r))
      else None)"

fun clean_shotgun_thumbnail_name :: "string \<Rightarrow> string" where
  "clean_shotgun_thumbnail_name [] = []"
| "clean_shotgun_thumbnail_name (c # cs) =
     (case thumb_suffix (c # cs) of
        Some r \<Rightarrow> r
      | None \<Rightarrow> c # clean_shotgun_thumbnail_name cs)"

section \<open>Path normalisation\<close>

text \<open>
  \<open>ast.literal_eval\<close> is the standard library's parser of Python literals; the code only
  calls it. It is a parameter of the model: a function from the text to the value parsed,
  or to the exception raised. What the model needs of it is that a parsed value is never
  larger than its text (a string literal carries its quotes, a sequence its brackets or
  commas), which is what makes the recursion of \<open>_flatten_and_clean_paths\<close> end.
\<close>

fun pysize :: "pyval \<Rightarrow> nat" where
  "pysize (PStr s) = length s + 1"
| "pysize (PList xs) = 1 + sum_list (map pysize xs)"
| "pysize (PTuple xs) = 1 + sum_list (map pysize xs)"
| "pysize _ = 1"

typedef literal_eval =
  "{f :: string \<Rightarrow> exn + pyval. \<forall>s v. f s = Inr v \<longrightarrow> pysize v \<le> length s}"
  by (rule exI [of _ "\<lambda>_. Inl (PyException ''SyntaxError'')"]) simp

setup_lifting type_definition_literal_eval

definition looks_like_sequence :: "string \<Rightarrow> bool" where
  "looks_like_sequence data =
     ((startswith data ''['' \<and> endswith data '']'') \<or> (startswith data ''('' \<and> endswith data '')''))"

text \<open>\<open>data.strip('\'" ')\<close>: single quote, double quote and space.\<close>

definition is_quote_or_space :: "char \<Rightarrow> bool" where
  "is_quote_or_space c = (c = CHR 0x27 \<or> c = CHR 0x22 \<or> c = CHR '' '')"

definition strip_quotes :: "string \<Rightarrow> string" where
  "strip_quotes s = strip_by is_quote_or_space s"

text \<open>
  \<open>l = []; [l.extend(f(i)) for i in data]; return l\<close>: the results in order, the first
  exception raised ending the loop.
\<close>

fun extend_all :: "(exn + string list) list \<Rightarrow> exn + string list" where
  "extend_all [] = Inr []"
| "extend_all (Inl e # rs) = Inl e"
| "extend_all (Inr xs # rs) = (case extend_all rs of Inl e \<Rightarrow> Inl e | Inr ys \<Rightarrow> Inr (xs @ ys))"

text \<open>
  \<open>_flatten_and_clean_paths\<close>. The recursive call on the parsed value sits inside the
  \<open>try\<close>, so an exception from it is caught by the same bare \<open>except\<close> as one from the
  parser.
\<close>

function flatten_and_clean_paths :: "literal_eval \<Rightarrow> pyval \<Rightarrow> exn + string list" where
  "flatten_and_clean_paths lit (PStr s) =
     (let data = strip s
      in if looks_like_sequence data then
           (case Rep_literal_eval lit data of
              Inl e \<Rightarrow> Inr [strip_quotes data]
            | Inr v \<Rightarrow>
                (case flatten_and_clean_paths lit v of
                   Inl e \<Rightarrow> Inr [strip_quotes data]
                 | Inr r \<Rightarrow> Inr r))
         else Inr [strip_quotes data])"
| "flatten_and_clean_paths lit (PList xs) = extend_all (map (flatten_and_clean_paths lit) xs)"
| "flatten_and_clean_paths lit (PTuple xs) = extend_all (map (flatten_and_clean_paths lit) xs)"
| "flatten_and_clean_paths lit PNone = Inr []"
| "flatten_and_clean_paths lit (PBool b) = Inr []"
| "flatten_and_clean_paths lit (PInt i) = Inr []"
| "flatten_and_clean_paths lit (PDict kvs) = Inr []"
  by pat_completeness auto
termination
proof (relation "measure (\<lambda>(lit, v). pysize v)")
  show "wf (measure (\<lambda>(lit, v). pysize v))" by simp
next
  fix lit :: literal_eval and s data :: string and v :: pyval
  assume d: "data = strip s" and r: "Rep_literal_eval lit data = Inr v"
  have "pysize v \<le> length data"
    using Rep_literal_eval [of lit] r by blast
  moreover have "length data \<le> length s"
  proof -
    have "length (dropWhile is_space (rev (dropWhile is_space s))) \<le> length (rev (dropWhile is_space s))"
      by (rule length_dropWhile_le)
    also have "\<dots> \<le> length s"
      by (simp add: length_dropWhile_le)
    finally show ?thesis by (simp add: d strip_def strip_by_def)
  qed
  ultimately show "((lit, v), (lit, PStr s)) \<in> measure (\<lambda>(lit, v). pysize v)"
    by simp
next
  fix lit :: literal_eval and xs :: "pyval list" and x :: pyval
  assume "x \<in> set xs"
  then have "pysize x \<le> sum_list (map pysize xs)"
    by (induction xs) auto
  then show "((lit, x), (lit, PList xs)) \<in> measure (\<lambda>(lit, v). pysize v)"
    by simp
next
  fix lit :: literal_eval and xs :: "pyval list" and x :: pyval
  assume "x \<in> set xs"
  then have "pysize x \<le> sum_list (map pysize xs)"
    by (induction xs) auto
  then show "((lit, x), (lit, PTuple xs)) \<in> measure (\<lambda>(lit, v). pysize v)"
    by simp
qed

text \<open>
  The first normalisation, in \<open>find_files\<close> (the loop over \<open>versions\<close>): a string is
  parsed as it is (not stripped), an unparsable one kept as a one-element list, and
  whatever is not a list in the end is wrapped into one.
\<close>

definition normalize_geo :: "literal_eval \<Rightarrow> pyval \<Rightarrow> pyval" where
  "normalize_geo lit geo =
     (let g1 = (case geo of
                  PStr g \<Rightarrow>
                    (if strip g \<noteq> [] then
                       (case Rep_literal_eval lit g of
                          Inr x \<Rightarrow> x
                        | Inl e \<Rightarrow> PList [PStr (strip g)])
                     else PList [])
                | PNone \<Rightarrow> PList []
                | other \<Rightarrow> other)
      in (case g1 of PList xs \<Rightarrow> PList xs | other \<Rightarrow> PList [other]))"

text \<open>
  A small parser to evaluate the model on: it knows the texts of \<open>sample_literals\<close>
  and raises on every other one.
\<close>

definition sample_literals :: "(string \<times> pyval) list" where
  "sample_literals =
     [(''['/p/a_v002.abc', ' /p/a.usd ']'', PList [PStr ''/p/a_v002.abc'', PStr '' /p/a.usd '']),
      (''('/p/b.abc', None, 7)'', PTuple [PStr ''/p/b.abc'', PNone, PInt 7]),
      (''['/p/c.usd']'', PList [PStr ''/p/c.usd'']),
      (''7'', PInt 7)]"

lift_definition sample_literal_eval :: literal_eval is
  "\<lambda>s. case map_of sample_literals s of
          Some v \<Rightarrow> Inr v
        | None \<Rightarrow> Inl (PyException ''SyntaxError'')"
proof -
  fix s v
  assume "(case map_of sample_literals s of
             Some v \<Rightarrow> Inr v
           | None \<Rightarrow> Inl (PyException ''SyntaxError'')) = Inr v"
  then have "map_of sample_literals s = Some v"
    by (simp split: option.splits)
  then have "(s, v) \<in> set sample_literals"
    by (rule map_of_SomeD)
  then show "pysize v \<le> length s"
    by (auto simp: sample_literals_def)
qed

section \<open>The store and the catalog resolver\<close>

text \<open>
  The production-tracking store is an external service. Its handle \<open>sg\<close> is \<open>None\<close>
  when the login failed. A query either returns records or raises; each call the code
  makes (\<open>find\<close> on projects and on versions, \<open>find_one\<close> on sequences) is a function of
  the filters, the field list and the order given. A filter is a triple
  \<open>[field, operator, value]\<close> or a group of filters joined by "and".
\<close>

datatype sg_value = SgNone | SgStr string | SgEntity string int

datatype sg_filter = Cond string string sg_value | AndGroup "sg_filter list"

record project =
  project_name :: string
  project_id :: int
  project_code :: string

record store =
  find_Project :: "sg_filter list \<Rightarrow> string list \<Rightarrow> exn + project list"
  find_Version ::
    "sg_filter list \<Rightarrow> string list \<Rightarrow> (string \<times> string) list \<Rightarrow> exn + pyval version list"
  find_one_Sequence :: "sg_filter list \<Rightarrow> string list \<Rightarrow> exn + int option"

record data_manager =
  sg :: "store option"
  HAL_PROJECT_SGID :: int

text \<open>A method call on the handle: on \<open>None\<close> the attribute access raises.\<close>

definition sg_find_Version ::
  "store option \<Rightarrow> sg_filter list \<Rightarrow> string list \<Rightarrow> (string \<times> string) list \<Rightarrow> exn + pyval version list" where
  "sg_find_Version handle filters field_names order_by =
     (case handle of
        None \<Rightarrow> Inl (PyException ''AttributeError'')
      | Some st \<Rightarrow> find_Version st filters field_names order_by)"

definition sg_find_one_Sequence ::
  "store option \<Rightarrow> sg_filter list \<Rightarrow> string list \<Rightarrow> exn + int option" where
  "sg_find_one_Sequence handle filters field_names =
     (case handle of
        None \<Rightarrow> Inl (PyException ''AttributeError'')
      | Some st \<Rightarrow> find_one_Sequence st filters field_names)"

definition get_active_projects :: "data_manager \<Rightarrow> project list" where
  "get_active_projects dm =
     (case sg dm of
        None \<Rightarrow> []
      | Some st \<Rightarrow>
          (case find_Project st [Cond ''sg_status'' ''is'' (SgStr ''Active'')]
                  [''name'', ''id'', ''code''] of
             Inl e \<Rightarrow> []
           | Inr ps \<Rightarrow> ps))"

definition get_category_abbreviation :: "string \<Rightarrow> string" where
  "get_category_abbreviation category_name =
     (case map_of [(''characters'', ''chr''), (''environments'', ''env''), (''props'', ''prp''),
                   (''vehicles'', ''veh''), (''cgfx'', ''cgfx'')] (lower category_name) of
        Some a \<Rightarrow> a
      | None \<Rightarrow> [])"

definition version_fields :: "string list" where
  "version_fields =
     [''id'', ''code'', ''content'', ''sg_path_to_geometry'', ''image'', ''entity'',
      ''entity.Shot.sg_sequence'', ''entity.Asset.sg_asset_type'', ''created_at'', ''user'',
      ''description'', ''entity.Asset.description'', ''entity.Shot.description'']"

definition project_is :: "int \<Rightarrow> sg_filter" where
  "project_is pid = Cond ''project'' ''is'' (SgEntity ''Project'' pid)"

text \<open>What the code appends for the collected \<open>code_filters\<close>: nothing, the one, or a group.\<close>

definition code_filter_group :: "sg_filter list \<Rightarrow> sg_filter list" where
  "code_filter_group code_filters =
     (case code_filters of [] \<Rightarrow> [] | [c] \<Rightarrow> [c] | _ \<Rightarrow> [AndGroup code_filters])"

text \<open>
  The filter list of \<open>find_files\<close> when the query is sent. The block that extends it
  runs under a bare \<open>except: pass\<close>: when the sequence lookup raises, the entity-type
  filter appended before it stays and the rest is skipped.
\<close>

definition find_files_filters :: "data_manager \<Rightarrow> string \<Rightarrow> string \<Rightarrow> sg_filter list" where
  "find_files_filters dm tab_context entity_type =
     (let filters = [project_is (HAL_PROJECT_SGID dm),
                     Cond ''sg_path_to_geometry'' ''is_not'' SgNone]
      in if tab_context \<noteq> [] \<and> entity_type \<noteq> [] then
           (case split_on CHR ''/'' tab_context of
              [type_part, category_part] \<Rightarrow>
                if entity_type = ''Asset'' then
                  (let abbr = get_category_abbreviation category_part;
                       code_filters =
                         (if abbr \<noteq> [] then [Cond ''code'' ''contains'' (SgStr abbr)] else []) @
                         [Cond ''code'' ''contains'' (SgStr type_part)]
                   in filters @ [Cond ''entity'' ''type_is'' (SgStr ''Asset'')] @
                      code_filter_group code_filters)
                else if entity_type = ''Shot'' then
                  (case sg_find_one_Sequence (sg dm)
                          [project_is (HAL_PROJECT_SGID dm),
                           Cond ''code'' ''is'' (SgStr category_part)] [''id''] of
                     Inl e \<Rightarrow> filters @ [Cond ''entity'' ''type_is'' (SgStr ''Shot'')]
                   | Inr seq \<Rightarrow>
                       filters @ [Cond ''entity'' ''type_is'' (SgStr ''Shot'')] @
                       (case seq of
                          Some i \<Rightarrow> [Cond ''entity.Shot.sg_sequence'' ''is'' (SgEntity ''Sequence'' i)]
                        | None \<Rightarrow> []) @
                       code_filter_group [Cond ''code'' ''contains'' (SgStr type_part)])
                else filters
            | _ \<Rightarrow> filters)
         else filters)"

definition clean_image :: "'p version \<Rightarrow> 'p version" where
  "clean_image v =
     v\<lparr>sg_image := clean_shotgun_thumbnail_name (extract_filename_from_url (sg_image v))\<rparr>"

definition find_files :: "literal_eval \<Rightarrow> data_manager \<Rightarrow> string \<Rightarrow> string \<Rightarrow> pyval version list" where
  "find_files lit dm tab_context entity_type =
     (if HAL_PROJECT_SGID dm = 0 then []
      else (case sg_find_Version (sg dm) (find_files_filters dm tab_context entity_type)
                   version_fields [] of
              Inl e \<Rightarrow> []
            | Inr versions \<Rightarrow>
                map clean_image
                  (select_latest
                     (map (\<lambda>v. v\<lparr>sg_path_to_geometry := normalize_geo lit (sg_path_to_geometry v)\<rparr>)
                        versions))))"

section \<open>The filter cascade\<close>

subsection \<open>Pick-lists\<close>

text \<open>
  The three tiers are \<open>QComboBox\<close> widgets of the Qt library, none of them editable. The
  model keeps what the code reads and writes of one: the items (a text and optional user
  data each) and the current index, \<open>-1\<close> when there is no current item. As Qt documents
  them: \<open>clear\<close> removes the items and leaves no current item; inserting into an empty
  box makes its first item current; \<open>findText\<close> gives the index of the first item with
  exactly that text, or \<open>-1\<close>; \<open>setCurrentText\<close> on a box that is not editable moves
  to the item \<open>findText\<close> finds and does nothing when there is none; \<open>currentText\<close> is
  the empty string and \<open>currentData\<close> is \<open>None\<close> when there is no current item.
\<close>

record 'a combo =
  items :: "(string \<times> 'a option) list"
  currentIndex :: int

definition clear :: "'a combo \<Rightarrow> 'a combo" where
  "clear c = c\<lparr>items := [], currentIndex := -1\<rparr>"

definition addItem :: "string \<Rightarrow> 'a option \<Rightarrow> 'a combo \<Rightarrow> 'a combo" where
  "addItem text userData c =
     c\<lparr>items := items c @ [(text, userData)],
       currentIndex := (if items c = [] then 0 else currentIndex c)\<rparr>"

definition addItems :: "string list \<Rightarrow> 'a combo \<Rightarrow> 'a combo" where
  "addItems texts c = foldl (\<lambda>c t. addItem t None c) c texts"

fun index_of :: "string \<Rightarrow> string list \<Rightarrow> int" where
  "index_of t [] = -1"
| "index_of t (x # xs) = (if x = t then 0 else (let i = index_of t xs in if i = -1 then -1 else i + 1))"

definition findText :: "string \<Rightarrow> 'a combo \<Rightarrow> int" where
  "findText t c = index_of t (map fst (items c))"

definition setCurrentText :: "string \<Rightarrow> 'a combo \<Rightarrow> 'a combo" where
  "setCurrentText t c = (let i = findText t c in if i > -1 then c\<lparr>currentIndex := i\<rparr> else c)"

definition currentItem :: "'a combo \<Rightarrow> (string \<times> 'a option) option" where
  "currentItem c =
     (if 0 \<le> currentIndex c \<and> currentIndex c < int (length (items c))
      then Some (items c ! nat (currentIndex c)) else None)"

definition currentText :: "'a combo \<Rightarrow> string" where
  "currentText c = (case currentItem c of Some it \<Rightarrow> fst it | None \<Rightarrow> [])"

definition currentData :: "'a combo \<Rightarrow> 'a option" where
  "currentData c = (case currentItem c of Some it \<Rightarrow> snd it | None \<Rightarrow> None)"

subsection \<open>The panel's state\<close>

text \<open>
  The part of \<open>ShotgunLibraryUI\<close> the cascade reads and writes. \<open>render_combo\<close> is the
  format tier, \<open>asset_filter_combo\<close> the sub-asset tier (inside \<open>asset_filter_widget\<close>,
  whose visibility flag \<open>isVisible\<close> reads back, the panel being shown), \<open>material_combo\<close>
  the version tier, its items carrying their record as user data. A gallery card is
  identified with its \<open>version_data\<close>. The two task pick-lists are kept as their current
  text. \<open>publish_date_label\<close> holds the time whose \<open>strftime\<close> text the label shows,
  \<open>None\<close> for the dash.
\<close>

record ui =
  data_manager :: data_manager
  top_tab_index :: int
  task_combo_assets :: string
  task_combo_shots :: string
  render_combo :: "unit combo"
  asset_filter_combo :: "unit combo"
  asset_filter_visible :: bool
  material_combo :: "string list version combo"
  current_version_history :: "string list version list"
  currently_selected_widget :: "string list version option"
  file_path_label :: string
  publish_date_label :: "int option"

text \<open>The class constant \<open>NO_ASSET_FILTER_TAG\<close>, seven CJK characters, as its UTF-8 bytes.\<close>

definition NO_ASSET_FILTER_TAG :: string where
  "NO_ASSET_FILTER_TAG =
     [CHR 0xE4, CHR 0xB8, CHR 0x8D, CHR 0xE9, CHR 0x80, CHR 0x9A, CHR 0xE8, CHR 0xBF, CHR 0x87,
      CHR 0xE8, CHR 0xB5, CHR 0x84, CHR 0xE4, CHR 0xBA, CHR 0xA7, CHR 0xE7, CHR 0xAD, CHR 0x9B,
      CHR 0xE9, CHR 0x80, CHR 0x89]"

definition with_paths :: "'a version \<Rightarrow> 'b \<Rightarrow> 'b version" where
  "with_paths v ps =
     \<lparr>vid = vid v, code = code v, entity = entity v, sg_path_to_geometry = ps,
      sg_image = sg_image v, created_at = created_at v, category = category v,
      asset_name = asset_name v\<rparr>"

definition has_format :: "string \<Rightarrow> string list version \<Rightarrow> bool" where
  "has_format fmt v = (\<exists>p \<in> set (sg_path_to_geometry v). get_file_format (PStr p) = fmt)"

definition update_displayed_info :: "ui \<Rightarrow> ui" where
  "update_displayed_info st =
     (case currentData (material_combo st) of
        None \<Rightarrow> st\<lparr>file_path_label := ''N/A'', publish_date_label := None\<rparr>
      | Some d \<Rightarrow>
          (let fmt = currentText (render_combo st);
               p = (case find (\<lambda>x. get_file_format (PStr x) = fmt) (sg_path_to_geometry d) of
                      Some x \<Rightarrow> x
                    | None \<Rightarrow> ''N/A'')
           in st\<lparr>file_path_label := p, publish_date_label := Some (created_at d)\<rparr>))"

definition handle_cancel_selection :: "ui \<Rightarrow> ui" where
  "handle_cancel_selection st =
     update_displayed_info
       (st\<lparr>currently_selected_widget := None,
           asset_filter_visible := False,
           asset_filter_combo := clear (asset_filter_combo st),
           material_combo := clear (material_combo st),
           render_combo := clear (render_combo st),
           current_version_history := []\<rparr>)"

text \<open>
  The label of a version in the version tier (the loop body of
  \<open>_update_dependent_filters\<close>): \<open>next(...)\<close> takes the first path of the chosen format.
\<close>

definition display_code :: "string \<Rightarrow> string list version \<Rightarrow> string" where
  "display_code fmt v =
     (let orig = code v
      in (case find (\<lambda>p. get_file_format (PStr p) = fmt) (sg_path_to_geometry v) of
            None \<Rightarrow> orig
          | Some p_fmt \<Rightarrow>
              if p_fmt \<noteq> [] then
                (case extract_version_from_path p_fmt of
                   Some pv \<Rightarrow> re_sub_version (CHR ''_'' # pv) orig
                 | None \<Rightarrow> orig)
              else orig))"

definition asset_names :: "string list version list \<Rightarrow> string list" where
  "asset_names vs =
     sort (remdups (concat (map (\<lambda>v. case asset_name v of
                                        Some a \<Rightarrow> if a \<noteq> [] then [a] else []
                                      | None \<Rightarrow> []) vs)))"

definition update_dependent_filters :: "ui \<Rightarrow> ui" where
  "update_dependent_filters st =
     (let fmt = currentText (render_combo st)
      in if current_version_history st = [] then st
         else
           (let vers_in_fmt = filter (has_format fmt) (current_version_history st);
                assets = asset_names vers_in_fmt;
                prev = currentText (asset_filter_combo st);
                cleared = clear (asset_filter_combo st);
                filled = addItem NO_ASSET_FILTER_TAG None (addItems assets cleared);
                afc = (if assets \<noteq> [] then (if prev \<noteq> [] then setCurrentText prev filled else filled)
                       else cleared);
                visible = (assets \<noteq> []);
                sel_asset = (if visible then Some (currentText afc) else None);
                final_vers =
                  (case sel_asset of
                     None \<Rightarrow> vers_in_fmt
                   | Some a \<Rightarrow>
                       if a = [] then vers_in_fmt
                       else if a = NO_ASSET_FILTER_TAG
                         then filter (\<lambda>v. asset_name v = None) vers_in_fmt
                       else filter (\<lambda>v. asset_name v = Some a) vers_in_fmt);
                ordered = sort_key (\<lambda>v. - created_at v) final_vers;
                mc = foldl (\<lambda>c v. addItem (display_code fmt v) (Some v) c)
                       (clear (material_combo st)) ordered
            in update_displayed_info
                 (st\<lparr>asset_filter_combo := afc, asset_filter_visible := visible,
                     material_combo := mc\<rparr>)))"

text \<open>
  \<open>_get_version_history_from_shotgun\<close>: the sibling versions of a card, newest first as
  the store orders them; empty on any failure.
\<close>

definition get_version_history_from_shotgun :: "ui \<Rightarrow> string list version \<Rightarrow> pyval version list" where
  "get_version_history_from_shotgun st widget =
     (case sg (data_manager st) of
        None \<Rightarrow> []
      | Some handle \<Rightarrow>
          (let pid = HAL_PROJECT_SGID (data_manager st)
           in (case entity widget of
                 None \<Rightarrow> []
               | Some ent \<Rightarrow>
                   if pid = 0 then []
                   else
                     (let task = (if top_tab_index st = 0 then task_combo_assets st
                                  else task_combo_shots st)
                      in (case find_Version handle
                                  [project_is pid,
                                   Cond ''entity'' ''is'' (SgEntity (ent_type ent) (ent_id ent)),
                                   Cond ''code'' ''contains'' (SgStr (''_'' @ task @ ''_''))]
                                  [''id'', ''code'', ''sg_path_to_geometry'', ''entity'', ''created_at'']
                                  [(''created_at'', ''desc'')] of
                            Inl e \<Rightarrow> []
                          | Inr history \<Rightarrow> history)))))"

text \<open>
  The first loop of \<open>_query_and_populate_all_filters\<close>: each record's paths are
  flattened and its \<open>asset_name\<close> set to \<open>None\<close>; an exception would leave the loop.
\<close>

fun populate_history :: "literal_eval \<Rightarrow> pyval version list \<Rightarrow> exn + string list version list" where
  "populate_history lit [] = Inr []"
| "populate_history lit (v # vs) =
     (case flatten_and_clean_paths lit (sg_path_to_geometry v) of
        Inl e \<Rightarrow> Inl e
      | Inr ps \<Rightarrow>
          (case populate_history lit vs of
             Inl e \<Rightarrow> Inl e
           | Inr rest \<Rightarrow> Inr ((with_paths v ps)\<lparr>asset_name := None\<rparr> # rest)))"

definition available_formats :: "string list version list \<Rightarrow> string list" where
  "available_formats history =
     sort (remdups (concat (map (\<lambda>v. map (\<lambda>p. get_file_format (PStr p)) (sg_path_to_geometry v))
                              history)))"

text \<open>
  A change of the version tier's current item with signals not blocked: the slot
  \<open>_update_displayed_info\<close> connected to \<open>currentIndexChanged\<close> runs when the index
  changes.
\<close>

definition material_setCurrentText :: "string \<Rightarrow> ui \<Rightarrow> ui" where
  "material_setCurrentText t st =
     (let mc = setCurrentText t (material_combo st);
          st' = st\<lparr>material_combo := mc\<rparr>
      in if currentIndex mc \<noteq> currentIndex (material_combo st)
         then update_displayed_info st' else st')"

definition query_and_populate_all_filters ::
  "literal_eval \<Rightarrow> ui \<Rightarrow> string list version \<Rightarrow> exn + ui" where
  "query_and_populate_all_filters lit st widget =
     (let cur_fmt = currentText (render_combo st);
          cur_ver = currentText (material_combo st);
          fetched = get_version_history_from_shotgun st widget
      in if fetched = [] then Inr (handle_cancel_selection (st\<lparr>current_version_history := []\<rparr>))
         else
           (case populate_history lit fetched of
              Inl e \<Rightarrow> Inl e
            | Inr history \<Rightarrow>
                (let rc = addItems (available_formats history) (clear (render_combo st));
                     rc' = (if cur_fmt \<noteq> [] \<and> findText cur_fmt rc \<noteq> -1
                            then setCurrentText cur_fmt rc else rc);
                     st1 = update_dependent_filters
                             (st\<lparr>current_version_history := history, render_combo := rc'\<rparr>)
                 in Inr (if cur_ver \<noteq> [] \<and> findText cur_ver (material_combo st1) \<noteq> -1
                         then material_setCurrentText cur_ver st1 else st1))))"

definition handle_thumbnail_click :: "literal_eval \<Rightarrow> ui \<Rightarrow> string list version \<Rightarrow> exn + ui" where
  "handle_thumbnail_click lit st widget =
     query_and_populate_all_filters lit (st\<lparr>currently_selected_widget := Some widget\<rparr>) widget"

text \<open>
  The user picking an entry of a tier: the index changes and the connected slot runs
  (\<open>_update_dependent_filters\<close> for the format tier, \<open>_update_displayed_info\<close> for the
  version tier).
\<close>

definition user_picks_format :: "int \<Rightarrow> ui \<Rightarrow> ui" where
  "user_picks_format i st =
     (if 0 \<le> i \<and> i < int (length (items (render_combo st))) \<and> i \<noteq> currentIndex (render_combo st)
      then update_dependent_filters (st\<lparr>render_combo := (render_combo st)\<lparr>currentIndex := i\<rparr>\<rparr>)
      else st)"

definition user_picks_version :: "int \<Rightarrow> ui \<Rightarrow> ui" where
  "user_picks_version i st =
     (if 0 \<le> i \<and> i < int (length (items (material_combo st))) \<and> i \<noteq> currentIndex (material_combo st)
      then update_displayed_info (st\<lparr>material_combo := (material_combo st)\<lparr>currentIndex := i\<rparr>\<rparr>)
      else st)"

text \<open>
  The versions behind the gallery, as \<open>_handle_refresh\<close> computes them: the resolver's
  result, narrowed to one shot when a shot is picked, each record's paths flattened.
\<close>

fun flatten_versions :: "literal_eval \<Rightarrow> pyval version list \<Rightarrow> exn + string list version list" where
  "flatten_versions lit [] = Inr []"
| "flatten_versions lit (v # vs) =
     (case flatten_and_clean_paths lit (sg_path_to_geometry v) of
        Inl e \<Rightarrow> Inl e
      | Inr ps \<Rightarrow>
          (case flatten_versions lit vs of
             Inl e \<Rightarrow> Inl e
           | Inr rest \<Rightarrow> Inr (with_paths v ps # rest)))"

definition refresh_versions ::
  "literal_eval \<Rightarrow> data_manager \<Rightarrow> string \<Rightarrow> string \<Rightarrow> string \<Rightarrow> string \<Rightarrow> exn + string list version list" where
  "refresh_versions lit dm ctx etype sd seq =
     (let vers = find_files lit dm ctx etype;
          vers' = (if etype = ''Shot'' \<and> sd \<noteq> [] \<and> sd \<noteq> ''All''
                   then filter (\<lambda>v. map_option ent_name (entity v) = Some (seq @ ''_'' @ sd)) vers
                   else vers)
      in flatten_versions lit vers')"

text \<open>
  What \<open>re.search\<close> over alternatives returns, said without the scanner: \<open>t\<close> is matched
  at a position \<open>i\<close> before which no alternative occurs, and among the alternatives that
  occur at \<open>i\<close> it is the first in the written order.
\<close>

definition leftmost_match :: "string list \<Rightarrow> string \<Rightarrow> string \<Rightarrow> bool" where
  "leftmost_match ts s t =
     (\<exists>i \<in> {0..length s}.
        (\<forall>j \<in> {0..<i}. \<forall>u \<in> set ts. \<not> occurs_at u s j) \<and>
        find (\<lambda>u. occurs_at u s i) ts = Some t)"

text \<open>
  For the latest selection: \<open>first_greatest r seen\<close> says that \<open>r\<close> stands in the list
  \<open>seen\<close> with every record of its key before it numbered strictly lower and every one
  after it numbered no higher, that is, \<open>r\<close> is the first record with the greatest
  version number of its key. \<open>latest_inv\<close> is the invariant of the loop over \<open>latest\<close>.
\<close>

definition vnum :: "'p version \<Rightarrow> int" where
  "vnum v = get_version_number (code v)"

definition first_greatest :: "'p version \<Rightarrow> 'p version list \<Rightarrow> bool" where
  "first_greatest r seen =
     (\<exists>pre post. seen = pre @ r # post \<and>
        (\<forall>w \<in> set pre. key_of w = key_of r \<longrightarrow> vnum w < vnum r) \<and>
        (\<forall>w \<in> set post. key_of w = key_of r \<longrightarrow> vnum w \<le> vnum r))"

definition latest_inv :: "(version_key \<times> 'p version) list \<Rightarrow> 'p version list \<Rightarrow> bool" where
  "latest_inv latest seen =
     (distinct (map fst latest) \<and>
      dom (map_of latest) = key_of ` set seen \<and>
      (\<forall>k r. map_of latest k = Some r \<longrightarrow> key_of r = k \<and> first_greatest r seen))"

subsection \<open>Sample data\<close>

definition sample_entity :: "string \<Rightarrow> entity_ref" where
  "sample_entity ty = \<lparr>ent_type = ty, ent_id = 7, ent_name = ''chair''\<rparr>"

definition sample_version :: "int \<Rightarrow> string \<Rightarrow> string \<Rightarrow> 'p \<Rightarrow> int \<Rightarrow> 'p version" where
  "sample_version i c ty ps t =
     \<lparr>vid = i, code = c, entity = Some (sample_entity ty), sg_path_to_geometry = ps,
      sg_image = [], created_at = t, category = None, asset_name = None\<rparr>"

definition sample_batch :: "pyval version list" where
  "sample_batch =
     [sample_version 1 ''asset_mdl_v001'' ''Asset'' PNone 10,
      sample_version 2 ''asset_mdl_v003'' ''Asset'' PNone 30,
      sample_version 3 ''asset_mdl_v002'' ''Asset'' PNone 20,
      sample_version 4 ''asset_MDL_v003'' ''Asset'' PNone 40,
      sample_version 5 ''asset_rig_v010'' ''Asset'' PNone 50]"


definition quote_trimmed :: "string \<Rightarrow> bool" where
  "quote_trimmed p = (p = [] \<or> (\<not> is_quote_or_space (hd p) \<and> \<not> is_quote_or_space (last p)))"




fun is_str :: "pyval \<Rightarrow> bool" where
  "is_str (PStr s) = True"
| "is_str _ = False"

fun is_list_or_tuple :: "pyval \<Rightarrow> bool" where
  "is_list_or_tuple (PList xs) = True"
| "is_list_or_tuple (PTuple xs) = True"
| "is_list_or_tuple _ = False"

subsection \<open>The cascade's selection state, as the specification words it\<close>

text \<open>
  The user picking an entry of the sub-asset tier runs \<open>_update_dependent_filters\<close>, as
  for the format tier.
\<close>

definition user_picks_sub_asset :: "int \<Rightarrow> ui \<Rightarrow> ui" where
  "user_picks_sub_asset i st =
     (if 0 \<le> i \<and> i < int (length (items (asset_filter_combo st))) \<and>
         i \<noteq> currentIndex (asset_filter_combo st)
      then update_dependent_filters
             (st\<lparr>asset_filter_combo := (asset_filter_combo st)\<lparr>currentIndex := i\<rparr>\<rparr>)
      else st)"

text \<open>
  \<open>selected_format\<close>, \<open>selected_sub_asset\<close> and \<open>selected_version\<close> read the three
  tiers; \<open>versions_for_selection\<close> is the specification's view of the same name: the
  records of the history with a path of the format and, when a sub-asset is chosen, with
  that sub-asset (with none, for the synthetic tag).
\<close>

definition selected_format :: "ui \<Rightarrow> string option" where
  "selected_format st = map_option fst (currentItem (render_combo st))"

definition selected_sub_asset :: "ui \<Rightarrow> string option" where
  "selected_sub_asset st =
     (if asset_filter_visible st \<and> currentText (asset_filter_combo st) \<noteq> []
      then Some (currentText (asset_filter_combo st)) else None)"

definition selected_version :: "ui \<Rightarrow> string list version option" where
  "selected_version st = currentData (material_combo st)"

definition versions_for_selection ::
  "string list version list \<Rightarrow> string \<Rightarrow> string option \<Rightarrow> string list version list" where
  "versions_for_selection history fmt sub =
     filter (\<lambda>v. has_format fmt v \<and>
                 (case sub of
                    None \<Rightarrow> True
                  | Some a \<Rightarrow> if a = NO_ASSET_FILTER_TAG then asset_name v = None
                              else asset_name v = Some a))
       history"

definition selection_consistent :: "ui \<Rightarrow> bool" where
  "selection_consistent st =
     ((case selected_format st of
         None \<Rightarrow> True
       | Some f \<Rightarrow> f \<in> set (available_formats (current_version_history st))) \<and>
      (case selected_version st of
         None \<Rightarrow> True
       | Some v \<Rightarrow> v \<in> set (versions_for_selection (current_version_history st)
                               (currentText (render_combo st)) (selected_sub_asset st))))"

text \<open>
  The invariant that carries it from one event to the next: every format offered is a
  format of the history, and every entry of the version tier holds a record of the
  history that matches the format and sub-asset chosen.
\<close>

definition cascade_inv :: "ui \<Rightarrow> bool" where
  "cascade_inv st =
     ((\<forall>it \<in> set (items (render_combo st)).
          fst it \<in> set (available_formats (current_version_history st))) \<and>
      (\<forall>it \<in> set (items (material_combo st)).
          (case snd it of
             None \<Rightarrow> False
           | Some v \<Rightarrow>
               v \<in> set (versions_for_selection (current_version_history st)
                          (currentText (render_combo st)) (selected_sub_asset st)))))"

subsection \<open>Sample stores and panel states\<close>

definition failing_store :: store where
  "failing_store =
     \<lparr>find_Project = (\<lambda>_ _. Inl (PyException ''Fault'')),
      find_Version = (\<lambda>_ _ _. Inl (PyException ''Fault'')),
      find_one_Sequence = (\<lambda>_ _. Inl (PyException ''Fault''))\<rparr>"

definition shot_batch :: "pyval version list" where
  "shot_batch = [sample_version 1 ''sh010_anim_v001'' ''Shot'' (PStr ''/p/sh010.abc'') 10]"

text \<open>A store whose sequence lookup fails and whose version query answers.\<close>

definition lookup_failing_store :: store where
  "lookup_failing_store =
     \<lparr>find_Project = (\<lambda>_ _. Inr []),
      find_Version = (\<lambda>_ _ _. Inr shot_batch),
      find_one_Sequence = (\<lambda>_ _. Inl (PyException ''Fault''))\<rparr>"

text \<open>
  A history of two versions, the newer first, each with an \<open>abc\<close> and a \<open>usd\<close> file,
  and the state of the panel after the user has picked format \<open>abc\<close> and the older
  version.
\<close>

definition history_abc_usd :: "pyval version list" where
  "history_abc_usd =
     [sample_version 12 ''chair_mdl_v002'' ''Asset''
        (PList [PStr ''/p/chair_v002.abc'', PStr ''/p/chair_v002.usd'']) 20,
      sample_version 11 ''chair_mdl_v001'' ''Asset''
        (PList [PStr ''/p/chair_v001.abc'', PStr ''/p/chair_v001.usd'']) 10]"

definition history_usd :: "pyval version list" where
  "history_usd =
     [sample_version 13 ''chair_mdl_v003'' ''Asset'' (PStr ''['/p/c.usd']'') 30]"

definition history_store :: "pyval version list \<Rightarrow> store" where
  "history_store h =
     \<lparr>find_Project = (\<lambda>_ _. Inr []),
      find_Version = (\<lambda>_ _ _. Inr h),
      find_one_Sequence = (\<lambda>_ _. Inr None)\<rparr>"

definition sample_card :: "string list version" where
  "sample_card = sample_version 12 ''chair_mdl_v002'' ''Asset'' [''/p/chair_v002.abc''] 20"

definition initial_ui :: "store option \<Rightarrow> ui" where
  "initial_ui handle =
     \<lparr>data_manager = \<lparr>sg = handle, HAL_PROJECT_SGID = 5\<rparr>,
      top_tab_index = 0,
      task_combo_assets = ''mdl'',
      task_combo_shots = ''anim'',
      render_combo = \<lparr>items = [], currentIndex = -1\<rparr>,
      asset_filter_combo = \<lparr>items = [], currentIndex = -1\<rparr>,
      asset_filter_visible = False,
      material_combo = \<lparr>items = [], currentIndex = -1\<rparr>,
      current_version_history = [],
      currently_selected_widget = None,
      file_path_label = ''N/A'',
      publish_date_label = None\<rparr>"

definition loaded_ui :: "store option \<Rightarrow> ui" where
  "loaded_ui handle =
     (case query_and_populate_all_filters sample_literal_eval
             (initial_ui (Some (history_store history_abc_usd))) sample_card of
        Inr st \<Rightarrow> (user_picks_version 1 st)\<lparr>data_manager := \<lparr>sg = handle, HAL_PROJECT_SGID = 5\<rparr>\<rparr>
      | Inl e \<Rightarrow> initial_ui handle)"

text \<open>
  Records for the display label: one whose first \<open>abc\<close> path carries a directory
  version and a file version, and one whose first \<open>abc\<close> path carries none while its
  second does.
\<close>

definition versioned_paths_record :: "string list version" where
  "versioned_paths_record =
     sample_version 21 ''chair_mdl_v001'' ''Asset''
       [''/p/chair.usd'', ''/p/v007/chair_v005.abc'', ''/p/chair_v009.abc''] 0"

definition second_path_record :: "string list version" where
  "second_path_record =
     sample_version 22 ''chair_mdl_v001'' ''Asset'' [''/p/chair.abc'', ''/p/chair_v005.abc''] 0"

section \<open>Properties of the format token\<close>

lemma split_on_nonempty: "split_on c s \<noteq> []"
  by (induction s) (auto split: list.splits)

lemma after_last_append:
  "after_last c (xs @ ys) = (if c \<in> set ys then after_last c ys else after_last c xs @ ys)"
  by (auto simp: after_last_def takeWhile_append)

lemma after_last_absent: "c \<notin> set s \<Longrightarrow> after_last c s = s"
proof -
  assume "c \<notin> set s"
  then have "\<forall>x\<in>set (rev s). x \<noteq> c" by auto
  then have *: "takeWhile (\<lambda>x. x \<noteq> c) (rev s) = rev s"
    by (simp only: takeWhile_eq_all_conv)
  show ?thesis unfolding after_last_def * by simp
qed

lemma after_last_Cons:
  "after_last c (x # xs) = (if c \<in> set xs then after_last c xs else if x = c then xs else x # xs)"
  using after_last_append [of c "[x]" xs] by (auto simp: after_last_def after_last_absent)

lemma split_on_absent: "c \<notin> set s \<Longrightarrow> split_on c s = [s]"
  by (induction s) auto

lemma split_on_present: "c \<in> set s \<Longrightarrow> tl (split_on c s) \<noteq> []"
  by (induction s) (auto simp: split_on_nonempty split: list.splits)

lemma last_split_on: "last (split_on c s) = after_last c s"
proof (induction s)
  case Nil
  show ?case by (simp add: after_last_def)
next
  case (Cons x xs)
  show ?case
  proof (cases "c \<in> set xs")
    case True
    with Cons show ?thesis
      using split_on_present [of c xs]
      by (auto simp: after_last_Cons split_on_nonempty split: list.splits)
  next
    case False
    then show ?thesis
      by (simp add: after_last_Cons split_on_absent)
  qed
qed

lemma split_last: "c \<in> set s \<Longrightarrow> s = before_last c s @ c # after_last c s"
proof -
  assume c: "c \<in> set s"
  let ?P = "\<lambda>x. x \<noteq> c"
  have ne: "dropWhile ?P (rev s) \<noteq> []" using c by (simp add: dropWhile_eq_Nil_conv)
  then have hd: "hd (dropWhile ?P (rev s)) = c" using hd_dropWhile [of ?P "rev s"] by simp
  have "rev s = takeWhile ?P (rev s) @ dropWhile ?P (rev s)" by simp
  also have "dropWhile ?P (rev s) = c # drop 1 (dropWhile ?P (rev s))"
    using ne hd by (cases "dropWhile ?P (rev s)") auto
  finally have "rev (rev s) = rev (takeWhile ?P (rev s) @ c # drop 1 (dropWhile ?P (rev s)))"
    by simp
  then show ?thesis by (simp add: before_last_def after_last_def)
qed

lemma extension_is_after_last_dot:
  assumes "CHR ''.'' \<notin> set (before_last CHR ''/'' p)"
  shows "(case file_extension p of Some e \<Rightarrow> e | None \<Rightarrow> ''unknown'') =
         (if CHR ''.'' \<in> set p then after_last CHR ''.'' p else ''unknown'')"
proof (cases "CHR ''/'' \<in> set p")
  case True
  from split_last [OF True] obtain d n where p: "p = d @ CHR ''/'' # n"
    and d: "d = before_last CHR ''/'' p" and n: "n = after_last CHR ''/'' p" by blast
  have nd: "CHR ''.'' \<notin> set d" using assms d by simp
  have mem: "CHR ''.'' \<in> set p \<longleftrightarrow> CHR ''.'' \<in> set n"
    by (subst p) (use nd in auto)
  have "after_last CHR ''.'' (d @ CHR ''/'' # n) =
        (if CHR ''.'' \<in> set n then after_last CHR ''.'' n
         else after_last CHR ''.'' d @ CHR ''/'' # n)"
    using after_last_append [of "CHR ''.''" d "CHR ''/'' # n"]
    by (simp add: after_last_Cons)
  then have al: "CHR ''.'' \<in> set n \<Longrightarrow> after_last CHR ''.'' p = after_last CHR ''.'' n"
    using p by simp
  show ?thesis
    unfolding file_extension_def Let_def n [symmetric] using mem al by simp
next
  case False
  then show ?thesis by (simp add: file_extension_def after_last_absent)
qed

text \<open>
  Where the directory part of a path (the text before the last \<open>/\<close>) holds no dot,
  the token the code derives is the one the specification describes: the file extension,
  \<open>bgeo.sc\<close> for the two-segment extension, \<open>unknown\<close> without an extension and for
  a value that is not a string.
\<close>

lemma get_file_format_is_extension:
  "(\<forall>p. path = PStr p \<longrightarrow> CHR ''.'' \<notin> set (before_last CHR ''/'' p)) \<Longrightarrow>
   get_file_format path = format_token_spec path"
proof (cases path)
  case (PStr p)
  assume "\<forall>p. path = PStr p \<longrightarrow> CHR ''.'' \<notin> set (before_last CHR ''/'' p)"
  with PStr have "CHR ''.'' \<notin> set (before_last CHR ''/'' p)" by simp
  from extension_is_after_last_dot [OF this] PStr show ?thesis
    by (auto simp: get_file_format_def format_token_spec_def last_split_on endswith_def)
qed (simp_all add: get_file_format_def format_token_spec_def)

lemma get_file_format_is_extension_examples:
  "get_file_format (PStr ''a/b/file.bgeo.sc'') = format_token_spec (PStr ''a/b/file.bgeo.sc'') \<and>
   get_file_format (PStr ''a/file.abc'') = format_token_spec (PStr ''a/file.abc'') \<and>
   get_file_format (PStr ''a/file'') = format_token_spec (PStr ''a/file'') \<and>
   get_file_format (PInt 3) = format_token_spec (PInt 3)"
proof (intro conjI)
  show "get_file_format (PStr ''a/b/file.bgeo.sc'') = format_token_spec (PStr ''a/b/file.bgeo.sc'')"
    by (rule get_file_format_is_extension) (simp add: before_last_def)
  show "get_file_format (PStr ''a/file.abc'') = format_token_spec (PStr ''a/file.abc'')"
    by (rule get_file_format_is_extension) (simp add: before_last_def)
  show "get_file_format (PStr ''a/file'') = format_token_spec (PStr ''a/file'')"
    by (rule get_file_format_is_extension) (simp add: before_last_def)
  show "get_file_format (PInt 3) = format_token_spec (PInt 3)"
    by (rule get_file_format_is_extension) simp
qed

text \<open>The three examples of the specification.\<close>

lemma get_file_format_examples:
  "get_file_format (PStr ''a/b/file.bgeo.sc'') = ''bgeo.sc''"
  "get_file_format (PStr ''a/file.abc'') = ''abc''"
  "get_file_format (PStr ''a/file'') = ''unknown''"
  by (simp_all add: get_file_format_def endswith_def)

text \<open>
  C4: the format token of a path is its file extension, and \<open>unknown\<close> for a path
  without one. On a path whose file name has no extension and whose directory name holds
  a dot this fails: the file extension rule gives \<open>unknown\<close>, the code gives the text
  after the directory's dot, since it looks for the dot in the whole path.
\<close>

theorem get_file_format_dotted_directory:
  "format_token_spec (PStr ''/proj/v1.5/cache'') = ''unknown'' \<and>
   get_file_format (PStr ''/proj/v1.5/cache'') = ''5/cache''"
  by (simp add: get_file_format_def format_token_spec_def endswith_def file_extension_def
      after_last_def)

section \<open>Properties of the categorisation\<close>

lemma occurs_at_0: "occurs_at u s 0 = startswith s u"
  by (simp add: occurs_at_def)

lemma occurs_at_Suc: "occurs_at u (c # cs) (Suc j) = occurs_at u cs j"
  by (simp add: occurs_at_def)

lemma re_search_alt_Some: "re_search_alt ts s = Some t \<Longrightarrow> leftmost_match ts s t"
proof (induction s)
  case Nil
  then show ?case by (simp add: leftmost_match_def occurs_at_0)
next
  case (Cons c cs)
  show ?case
  proof (cases "find (\<lambda>t. startswith (c # cs) t) ts")
    case (Some t')
    with Cons.prems have "find (\<lambda>u. occurs_at u (c # cs) 0) ts = Some t"
      by (simp add: occurs_at_0)
    then show ?thesis
      unfolding leftmost_match_def by (intro bexI [of _ 0]) auto
  next
    case None
    then have no0: "\<forall>u \<in> set ts. \<not> occurs_at u (c # cs) 0"
      by (simp add: find_None_iff occurs_at_0)
    from None Cons.prems have "re_search_alt ts cs = Some t" by simp
    from Cons.IH [OF this] obtain i where i: "i \<le> length cs"
      and before: "\<forall>j \<in> {0..<i}. \<forall>u \<in> set ts. \<not> occurs_at u cs j"
      and here: "find (\<lambda>u. occurs_at u cs i) ts = Some t"
      unfolding leftmost_match_def by auto
    have "\<forall>j \<in> {0..<Suc i}. \<forall>u \<in> set ts. \<not> occurs_at u (c # cs) j"
    proof (intro ballI)
      fix j u assume j: "j \<in> {0..<Suc i}" and u: "u \<in> set ts"
      show "\<not> occurs_at u (c # cs) j"
      proof (cases j)
        case 0
        with no0 u show ?thesis by simp
      next
        case (Suc j')
        with j before u show ?thesis by (simp add: occurs_at_Suc)
      qed
    qed
    moreover have "find (\<lambda>u. occurs_at u (c # cs) (Suc i)) ts = Some t"
      using here by (simp add: occurs_at_Suc)
    ultimately show ?thesis
      unfolding leftmost_match_def using i by (intro bexI [of _ "Suc i"]) auto
  qed
qed

lemma re_search_alt_None: "re_search_alt ts s = None \<Longrightarrow> u \<in> set ts \<Longrightarrow> \<not> is_substring u s"
proof (induction s)
  case Nil
  then show ?case by (auto simp: is_substring_def occurs_at_def find_None_iff)
next
  case (Cons c cs)
  from Cons.prems have no0: "\<not> startswith (c # cs) u" and rest: "re_search_alt ts cs = None"
    by (auto simp: find_None_iff split: option.splits)
  from Cons.IH [OF rest Cons.prems(2)] have ih: "\<not> occurs_at u cs j" for j
    by (cases "j \<le> length cs") (auto simp: is_substring_def occurs_at_def)
  have "\<not> occurs_at u (c # cs) i" for i
  proof (cases i)
    case 0
    with no0 show ?thesis by (simp add: occurs_at_0)
  next
    case (Suc j)
    with ih [of j] show ?thesis by (simp add: occurs_at_Suc)
  qed
  then show ?case by (simp add: is_substring_def)
qed

lemma leftmost_match_substring:
  assumes "leftmost_match ts s t"
  shows "t \<in> set ts \<and> is_substring t s"
proof -
  from assms obtain i where i: "i \<in> {0..length s}"
    and f: "find (\<lambda>u. occurs_at u s i) ts = Some t"
    unfolding leftmost_match_def by blast
  from f have "t \<in> set ts" and "occurs_at t s i"
    by (auto simp: find_Some_iff)
  with i show ?thesis unfolding is_substring_def by blast
qed

lemma search_or_default:
  "(if \<exists>t \<in> set ts. is_substring t s
    then leftmost_match ts s (case re_search_alt ts s of Some t \<Rightarrow> t | None \<Rightarrow> d)
    else (case re_search_alt ts s of Some t \<Rightarrow> t | None \<Rightarrow> d) = d)"
proof (cases "re_search_alt ts s")
  case None
  with re_search_alt_None [OF None] show ?thesis by auto
next
  case (Some t)
  with re_search_alt_Some [OF Some] leftmost_match_substring [of ts s t]
  show ?thesis by auto
qed

text \<open>
  C5, as the code has it: the category of an Asset record is the asset-task token whose
  occurrence in the lower-cased code starts leftmost (the order of the token list decides
  only between tokens starting at the same place), and \<open>asset_unknown\<close> when no token
  occurs; likewise for a Shot record with the shot-task tokens and \<open>shot_unknown\<close>. The
  category is never absent.
\<close>

theorem categorize_version_leftmost:
  "(map_option ent_type (entity v) = Some ''Asset'' \<longrightarrow>
      (\<exists>c. category (categorize_version v) = Some c \<and>
           (if \<exists>t \<in> set ASSET_TYPES. is_substring t (lower (code v))
            then leftmost_match ASSET_TYPES (lower (code v)) c
            else c = ''asset_unknown''))) \<and>
   (map_option ent_type (entity v) = Some ''Shot'' \<longrightarrow>
      (\<exists>c. category (categorize_version v) = Some c \<and>
           (if \<exists>t \<in> set SHOT_TYPES. is_substring t (lower (code v))
            then leftmost_match SHOT_TYPES (lower (code v)) c
            else c = ''shot_unknown'')))"
proof (intro conjI impI)
  assume "map_option ent_type (entity v) = Some ''Asset''"
  then have "category (categorize_version v) =
      Some (case re_search_alt ASSET_TYPES (lower (code v)) of Some t \<Rightarrow> t | None \<Rightarrow> ''asset_unknown'')"
    by (auto simp: categorize_version_def Let_def)
  with search_or_default [of ASSET_TYPES "lower (code v)" "''asset_unknown''"]
  show "\<exists>c. category (categorize_version v) = Some c \<and>
           (if \<exists>t \<in> set ASSET_TYPES. is_substring t (lower (code v))
            then leftmost_match ASSET_TYPES (lower (code v)) c
            else c = ''asset_unknown'')"
    by (intro exI conjI) assumption+
next
  assume "map_option ent_type (entity v) = Some ''Shot''"
  then have "category (categorize_version v) =
      Some (case re_search_alt SHOT_TYPES (lower (code v)) of Some t \<Rightarrow> t | None \<Rightarrow> ''shot_unknown'')"
    by (auto simp: categorize_version_def Let_def)
  with search_or_default [of SHOT_TYPES "lower (code v)" "''shot_unknown''"]
  show "\<exists>c. category (categorize_version v) = Some c \<and>
           (if \<exists>t \<in> set SHOT_TYPES. is_substring t (lower (code v))
            then leftmost_match SHOT_TYPES (lower (code v)) c
            else c = ''shot_unknown'')"
    by (intro exI conjI) assumption+
qed

theorem categorize_version_leftmost_witness:
  "(\<exists>c. category (categorize_version (sample_version 1 ''chair_RIG_mdl_v001'' ''Asset'' PNone 0)) = Some c \<and>
        (if \<exists>t \<in> set ASSET_TYPES. is_substring t (lower ''chair_RIG_mdl_v001'')
         then leftmost_match ASSET_TYPES (lower ''chair_RIG_mdl_v001'') c
         else c = ''asset_unknown'')) \<and>
   (\<exists>c. category (categorize_version (sample_version 2 ''sh010_v001'' ''Shot'' PNone 0)) = Some c \<and>
        (if \<exists>t \<in> set SHOT_TYPES. is_substring t (lower ''sh010_v001'')
         then leftmost_match SHOT_TYPES (lower ''sh010_v001'') c
         else c = ''shot_unknown''))"
proof -
  have a: "map_option ent_type (entity (sample_version 1 ''chair_RIG_mdl_v001'' ''Asset'' PNone 0)) = Some ''Asset''"
    by (simp add: sample_version_def sample_entity_def)
  have s: "map_option ent_type (entity (sample_version 2 ''sh010_v001'' ''Shot'' PNone 0)) = Some ''Shot''"
    by (simp add: sample_version_def sample_entity_def)
  have c1: "code (sample_version 1 ''chair_RIG_mdl_v001'' ''Asset'' PNone 0) = ''chair_RIG_mdl_v001''"
    by (simp add: sample_version_def)
  have c2: "code (sample_version 2 ''sh010_v001'' ''Shot'' PNone 0) = ''sh010_v001''"
    by (simp add: sample_version_def)
  from categorize_version_leftmost [of "sample_version 1 ''chair_RIG_mdl_v001'' ''Asset'' PNone 0"]
       categorize_version_leftmost [of "sample_version 2 ''sh010_v001'' ''Shot'' PNone 0"]
       a s
  show ?thesis unfolding c1 c2 by blast
qed

text \<open>
  A code holding two tokens: \<open>rig\<close> comes first in the text, \<open>mdl\<close> first in the token
  list. The code's category is \<open>rig\<close>; trying the tokens in their declared order gives
  \<open>mdl\<close>.
\<close>

theorem categorize_version_counterexample:
  "category (categorize_version (sample_version 1 ''chair_RIG_mdl_v001'' ''Asset'' PNone 0)) = Some ''rig'' \<and>
   priority_match ASSET_TYPES (lower ''chair_RIG_mdl_v001'') = Some ''mdl''"
  by code_simp

section \<open>Properties of the latest selection\<close>

lemma first_greatest_bound:
  assumes "first_greatest r seen" "w \<in> set seen" "key_of w = key_of r"
  shows "vnum w \<le> vnum r"
proof -
  from assms(1) obtain pre post where s: "seen = pre @ r # post"
    and a: "\<forall>w \<in> set pre. key_of w = key_of r \<longrightarrow> vnum w < vnum r"
    and b: "\<forall>w \<in> set post. key_of w = key_of r \<longrightarrow> vnum w \<le> vnum r"
    unfolding first_greatest_def by blast
  from assms(2) s have "w \<in> set pre \<or> w = r \<or> w \<in> set post" by auto
  with a b assms(3) show ?thesis by fastforce
qed

lemma first_greatest_snoc:
  assumes "first_greatest r seen" "key_of w = key_of r \<longrightarrow> vnum w \<le> vnum r"
  shows "first_greatest r (seen @ [w])"
proof -
  from assms(1) obtain pre post where s: "seen = pre @ r # post"
    and a: "\<forall>w \<in> set pre. key_of w = key_of r \<longrightarrow> vnum w < vnum r"
    and b: "\<forall>w \<in> set post. key_of w = key_of r \<longrightarrow> vnum w \<le> vnum r"
    unfolding first_greatest_def by blast
  have "seen @ [w] = pre @ r # (post @ [w])" using s by simp
  moreover have "\<forall>x \<in> set (post @ [w]). key_of x = key_of r \<longrightarrow> vnum x \<le> vnum r"
    using b assms(2) by auto
  ultimately show ?thesis unfolding first_greatest_def using a by blast
qed

lemma first_greatest_new:
  assumes "\<forall>w \<in> set seen. key_of w = key_of r \<longrightarrow> vnum w < vnum r"
  shows "first_greatest r (seen @ [r])"
  unfolding first_greatest_def using assms by (intro exI [of _ seen] exI [of _ "[]"]) simp

lemma latest_step_inv:
  assumes inv: "latest_inv latest seen"
  shows "latest_inv (latest_step latest v) (seen @ [categorize_version v])"
proof -
  define cv where "cv = categorize_version v"
  define k where "k = key_of cv"
  from inv have dist: "distinct (map fst latest)"
    and dom: "dom (map_of latest) = key_of ` set seen"
    and ent: "\<And>k r. map_of latest k = Some r \<Longrightarrow> key_of r = k \<and> first_greatest r seen"
    unfolding latest_inv_def by blast+
  show ?thesis
  proof (cases "map_of latest k")
    case None
    then have step: "latest_step latest v = AList.update k cv latest"
      by (simp add: latest_step_def Let_def cv_def k_def)
    have nokey: "\<forall>w \<in> set seen. key_of w \<noteq> k"
      using None dom by (metis domIff imageI)
    have "first_greatest cv (seen @ [cv])"
      by (rule first_greatest_new) (use nokey k_def in auto)
    moreover have "first_greatest r (seen @ [cv])" if "map_of latest k' = Some r" "k' \<noteq> k" for k' r
      by (rule first_greatest_snoc) (use ent [OF that(1)] that(2) k_def in auto)
    ultimately show ?thesis
      unfolding latest_inv_def step cv_def [symmetric]
      using dist dom ent
      by (auto simp: update_conv' distinct_update k_def)
  next
    case (Some r0)
    from ent [OF Some] have r0: "key_of r0 = k" "first_greatest r0 seen" by auto
    show ?thesis
    proof (cases "vnum cv > vnum r0")
      case True
      then have step: "latest_step latest v = AList.update k cv latest"
        using Some by (simp add: latest_step_def Let_def cv_def k_def vnum_def)
      have "\<forall>w \<in> set seen. key_of w = key_of cv \<longrightarrow> vnum w < vnum cv"
        using first_greatest_bound [OF r0(2)] r0(1) True k_def by fastforce
      then have "first_greatest cv (seen @ [cv])" by (rule first_greatest_new)
      moreover have "first_greatest r (seen @ [cv])" if "map_of latest k' = Some r" "k' \<noteq> k" for k' r
        by (rule first_greatest_snoc) (use ent [OF that(1)] that(2) k_def in auto)
      moreover have "k \<in> key_of ` set seen" using Some dom by (metis domI)
      ultimately show ?thesis
        unfolding latest_inv_def step cv_def [symmetric]
        using dist dom ent
        by (auto simp: update_conv' distinct_update k_def)
    next
      case False
      then have step: "latest_step latest v = latest"
        using Some by (simp add: latest_step_def Let_def cv_def k_def vnum_def)
      have "first_greatest r (seen @ [cv])" if "map_of latest k' = Some r" for k' r
      proof (rule first_greatest_snoc)
        show "first_greatest r seen" using ent [OF that] by simp
        show "key_of cv = key_of r \<longrightarrow> vnum cv \<le> vnum r"
        proof
          assume "key_of cv = key_of r"
          with ent [OF that] have "k' = k" by (simp add: k_def)
          with that Some have "r = r0" by simp
          with False show "vnum cv \<le> vnum r" by simp
        qed
      qed
      moreover have "k \<in> key_of ` set seen" using Some dom by (metis domI)
      ultimately show ?thesis
        unfolding latest_inv_def step cv_def [symmetric]
        using dist dom ent by (auto simp: k_def)
    qed
  qed
qed

lemma latest_inv_foldl: "latest_inv (foldl latest_step [] vs) (map categorize_version vs)"
proof (induction vs rule: rev_induct)
  case Nil
  show ?case by (simp add: latest_inv_def)
next
  case (snoc v vs)
  from latest_step_inv [OF snoc] show ?case by simp
qed

text \<open>
  C1: the resolver's selection keeps exactly one record for each key (entity type, entity
  id, category) of the batch, and the record kept is the first one with the greatest
  version number of its key: every record of the key met before it has a strictly lower
  number, every one met after it a number no higher. The batch is read as categorised,
  as the loop categorises each record before it computes its key.
\<close>

theorem select_latest_first_greatest:
  fixes vs :: "'p version list"
  shows
  "distinct (map key_of (select_latest vs)) \<and>
   key_of ` set (select_latest vs) = key_of ` set (map categorize_version vs) \<and>
   (\<forall>r \<in> set (select_latest vs).
      \<exists>pre post. map categorize_version vs = pre @ r # post \<and>
        (\<forall>w \<in> set pre. key_of w = key_of r \<longrightarrow>
            get_version_number (code w) < get_version_number (code r)) \<and>
        (\<forall>w \<in> set post. key_of w = key_of r \<longrightarrow>
            get_version_number (code w) \<le> get_version_number (code r)))"
proof -
  define latest where "latest = foldl latest_step [] vs"
  define seen where "seen = map categorize_version vs"
  have inv: "latest_inv latest seen"
    unfolding latest_def seen_def by (rule latest_inv_foldl)
  then have dist: "distinct (map fst latest)"
    and dom: "dom (map_of latest) = key_of ` set seen"
    and ent: "\<And>k r. map_of latest k = Some r \<Longrightarrow> key_of r = k \<and> first_greatest r seen"
    unfolding latest_inv_def by blast+
  have sel: "select_latest vs = map snd latest"
    by (simp add: select_latest_def latest_def)
  have mem: "key_of (snd kr) = fst kr \<and> first_greatest (snd kr) seen" if "kr \<in> set latest" for kr
  proof -
    from that dist have "map_of latest (fst kr) = Some (snd kr)" by simp
    from ent [OF this] show ?thesis .
  qed
  have keys: "map key_of (map snd latest) = map fst latest"
    using mem by simp
  have "distinct (map key_of (select_latest vs))"
    unfolding sel keys by (rule dist)
  moreover have "key_of ` set (select_latest vs) = key_of ` set seen"
  proof -
    have "key_of ` set (select_latest vs) = set (map key_of (map snd latest))"
      unfolding sel by (simp only: set_map)
    also have "\<dots> = fst ` set latest" unfolding keys by simp
    also have "\<dots> = dom (map_of latest)" by (simp add: dom_map_of_conv_image_fst)
    finally show ?thesis using dom by simp
  qed
  moreover have "\<forall>r \<in> set (select_latest vs). first_greatest r seen"
    unfolding sel using mem by auto
  ultimately show ?thesis
    unfolding seen_def first_greatest_def vnum_def by blast
qed

text \<open>
  The selection inside \<open>find_files\<close>: when the version query answers, the result is
  the selection over the answer, each record with its thumbnail name cleaned, which
  changes neither its key nor its code.
\<close>

lemma find_files_selects_latest:
  assumes "HAL_PROJECT_SGID dm \<noteq> 0"
    and "sg_find_Version (sg dm) (find_files_filters dm tab_context entity_type) version_fields [] =
           Inr versions"
  shows "find_files lit dm tab_context entity_type =
           map clean_image
             (select_latest
                (map (\<lambda>v. v\<lparr>sg_path_to_geometry := normalize_geo lit (sg_path_to_geometry v)\<rparr>)
                   versions))"
  using assms by (simp add: find_files_def)

lemma clean_image_same: "key_of (clean_image v) = key_of v \<and> code (clean_image v) = code v"
  by (simp add: clean_image_def key_of_def)

lemma get_version_number_examples:
  "get_version_number ''foo_v012_bar'' = 12"
  "get_version_number ''no_version_here'' = 0"
  by code_simp+

theorem select_latest_first_greatest_witness:
  "distinct (map key_of (select_latest sample_batch)) \<and>
   key_of ` set (select_latest sample_batch) = key_of ` set (map categorize_version sample_batch) \<and>
   map vid (select_latest sample_batch) = [2, 5] \<and>
   (\<exists>pre post. map categorize_version sample_batch =
        pre @ categorize_version (sample_version 2 ''asset_mdl_v003'' ''Asset'' PNone 30) # post \<and>
      (\<forall>w \<in> set pre. key_of w = key_of (categorize_version (sample_version 2 ''asset_mdl_v003'' ''Asset'' PNone 30)) \<longrightarrow>
          get_version_number (code w) <
          get_version_number (code (categorize_version (sample_version 2 ''asset_mdl_v003'' ''Asset'' PNone 30)))) \<and>
      (\<forall>w \<in> set post. key_of w = key_of (categorize_version (sample_version 2 ''asset_mdl_v003'' ''Asset'' PNone 30)) \<longrightarrow>
          get_version_number (code w) \<le>
          get_version_number (code (categorize_version (sample_version 2 ''asset_mdl_v003'' ''Asset'' PNone 30)))))"
proof -
  have kept: "categorize_version (sample_version 2 ''asset_mdl_v003'' ''Asset'' PNone 30)
      \<in> set (select_latest sample_batch)"
    by code_simp
  have ids: "map vid (select_latest sample_batch) = [2, 5]"
    by code_simp
  from select_latest_first_greatest [of sample_batch] kept ids show ?thesis
    by blast
qed

section \<open>Properties of the path normalisation\<close>

lemma strip_by_trimmed:
  "strip_by P s = [] \<or> (\<not> P (hd (strip_by P s)) \<and> \<not> P (last (strip_by P s)))"
proof (cases "strip_by P s = []")
  case False
  let ?t = "dropWhile P s"
  let ?u = "dropWhile P (rev ?t)"
  from False have u: "?u \<noteq> []" by (simp add: strip_by_def)
  have t: "?t \<noteq> []"
  proof
    assume "?t = []"
    with u show False by simp
  qed
  have "\<not> P (hd ?u)" using u hd_dropWhile by blast
  then have l: "\<not> P (last (strip_by P s))"
    using u by (simp add: strip_by_def last_rev)
  have "\<not> P (hd ?t)" using t hd_dropWhile by blast
  moreover have "hd (strip_by P s) = hd ?t"
  proof -
    have "rev ?t = takeWhile P (rev ?t) @ ?u" by simp
    then have "?t = rev ?u @ rev (takeWhile P (rev ?t))"
      by (metis rev_append rev_rev_ident)
    then have "hd ?t = hd (rev ?u)" using u by (metis hd_append2 rev_is_Nil_conv)
    then show ?thesis by (simp add: strip_by_def)
  qed
  ultimately show ?thesis using l by simp
qed simp

lemma quote_trimmed_strip_quotes: "quote_trimmed (strip_quotes s)"
  unfolding quote_trimmed_def strip_quotes_def by (rule strip_by_trimmed)





lemma extend_all_Inr:
  assumes "\<forall>x \<in> set xs. \<exists>ps. f x = Inr ps \<and> (\<forall>p \<in> set ps. Q p)"
  shows "\<exists>ps. extend_all (map f xs) = Inr ps \<and> (\<forall>p \<in> set ps. Q p)"
  using assms
proof (induction xs)
  case Nil
  show ?case by simp
next
  case (Cons x xs)
  from Cons.prems obtain ps where x: "f x = Inr ps" "\<forall>p \<in> set ps. Q p" by auto
  from Cons.IH Cons.prems obtain qs where xs: "extend_all (map f xs) = Inr qs" "\<forall>p \<in> set qs. Q p"
    by auto
  from x xs show ?case by auto
qed

lemma flatten_total:
  "\<exists>ps. flatten_and_clean_paths lit data = Inr ps \<and> (\<forall>p \<in> set ps. quote_trimmed p)"
proof (induction lit data rule: flatten_and_clean_paths.induct)
  case (1 lit s)
  show ?case
  proof (cases "looks_like_sequence (strip s)")
    case False
    then show ?thesis by (auto simp: quote_trimmed_strip_quotes)
  next
    case True
    show ?thesis
    proof (cases "Rep_literal_eval lit (strip s)")
      case (Inl e)
      with True show ?thesis by (auto simp: quote_trimmed_strip_quotes)
    next
      case (Inr v)
      from 1 [OF refl True Inr] obtain ps where
        "flatten_and_clean_paths lit v = Inr ps" "\<forall>p \<in> set ps. quote_trimmed p" by blast
      with True Inr show ?thesis by simp
    qed
  qed
next
  case (2 lit xs)
  then show ?case by (simp add: extend_all_Inr)
next
  case (3 lit xs)
  then show ?case by (simp add: extend_all_Inr)
qed simp_all






lemma normalize_geo_list: "\<exists>xs. normalize_geo lit geo = PList xs"
  by (cases geo) (auto simp: normalize_geo_def split: sum.splits pyval.splits)


lemma extend_all_drop: "extend_all (rs @ Inr [] # ss) = extend_all (rs @ ss)"
proof (induction rs)
  case Nil
  show ?case by (cases "extend_all ss") auto
next
  case (Cons r rs)
  then show ?case by (cases r) auto
qed

lemma flatten_other:
  "\<not> is_str v \<Longrightarrow> \<not> is_list_or_tuple v \<Longrightarrow> flatten_and_clean_paths lit v = Inr []"
  by (cases v) auto

lemma normalize_geo_other:
  "\<not> is_str v \<Longrightarrow> \<not> is_list_or_tuple v \<Longrightarrow>
   flatten_and_clean_paths lit (normalize_geo lit v) = Inr []"
  by (cases v) (auto simp: normalize_geo_def)






text \<open>
  C10: a value that is neither a string nor a list or tuple (None, a number, a dict)
  normalises to the empty list: given directly; inside a list or a tuple, where it adds
  nothing to the result; and after the loop of \<open>find_files\<close>, which wraps it into a list
  first. A record whose raw path field is such a value is left without paths, in the
  version history and in the gallery.
\<close>

theorem flatten_and_clean_paths_drops_other:
  assumes "\<not> is_str v" and "\<not> is_list_or_tuple v"
  shows "flatten_and_clean_paths lit v = Inr [] \<and>
         flatten_and_clean_paths lit (PList (xs @ v # ys)) = flatten_and_clean_paths lit (PList (xs @ ys)) \<and>
         flatten_and_clean_paths lit (PTuple (xs @ v # ys)) = flatten_and_clean_paths lit (PTuple (xs @ ys)) \<and>
         flatten_and_clean_paths lit (normalize_geo lit v) = Inr [] \<and>
         populate_history lit [r\<lparr>sg_path_to_geometry := v\<rparr>] =
           Inr [(with_paths r [])\<lparr>asset_name := None\<rparr>] \<and>
         flatten_versions lit [r\<lparr>sg_path_to_geometry := normalize_geo lit v\<rparr>] =
           Inr [with_paths r []]"
proof -
  have a: "flatten_and_clean_paths lit v = Inr []"
    using assms by (rule flatten_other)
  have b: "flatten_and_clean_paths lit (normalize_geo lit v) = Inr []"
    using assms by (rule normalize_geo_other)
  from a b show ?thesis
    by (simp add: extend_all_drop with_paths_def)
qed

theorem flatten_and_clean_paths_drops_other_witness:
  "flatten_and_clean_paths sample_literal_eval (PDict [(PStr ''a'', PInt 1)]) = Inr [] \<and>
   flatten_and_clean_paths sample_literal_eval (PList ([PStr ''/p/a.abc''] @ PDict [(PStr ''a'', PInt 1)] # [PNone])) =
     flatten_and_clean_paths sample_literal_eval (PList ([PStr ''/p/a.abc''] @ [PNone])) \<and>
   flatten_and_clean_paths sample_literal_eval (normalize_geo sample_literal_eval (PDict [(PStr ''a'', PInt 1)])) = Inr [] \<and>
   populate_history sample_literal_eval
     [(sample_version 1 ''chair_mdl_v001'' ''Asset'' PNone 0)\<lparr>sg_path_to_geometry := PDict [(PStr ''a'', PInt 1)]\<rparr>] =
     Inr [(with_paths (sample_version 1 ''chair_mdl_v001'' ''Asset'' PNone 0) [])\<lparr>asset_name := None\<rparr>]"
proof -
  have "\<not> is_str (PDict [(PStr ''a'', PInt 1)])" and "\<not> is_list_or_tuple (PDict [(PStr ''a'', PInt 1)])"
    by simp_all
  from flatten_and_clean_paths_drops_other
    [OF this, of sample_literal_eval "[PStr ''/p/a.abc'']" "[PNone]"
       "sample_version 1 ''chair_mdl_v001'' ''Asset'' PNone 0"]
  show ?thesis by blast
qed

section \<open>Properties of the resolver's failure policy\<close>

text \<open>
  C8, as the code has it: when the session handle is \<open>None\<close>, and when the project
  query or the version query raises, the two entry points return the empty list. A
  failure of the sequence lookup inside \<open>find_files\<close> is caught too, but does not empty
  the result: the version query is then sent with the entity-type filter and without the
  sequence and code filters. In the model an entry point returns a list and has no
  exception among its results: each call to the store stands under a handler.
\<close>

theorem store_failure_policy:
  "(sg dm = None \<longrightarrow>
      get_active_projects dm = [] \<and> find_files lit dm tab_context entity_type = []) \<and>
   (sg dm = Some st \<and>
    find_Project st [Cond ''sg_status'' ''is'' (SgStr ''Active'')] [''name'', ''id'', ''code''] = Inl e \<longrightarrow>
      get_active_projects dm = []) \<and>
   (sg dm = Some st \<and>
    find_Version st (find_files_filters dm tab_context entity_type) version_fields [] = Inl e \<longrightarrow>
      find_files lit dm tab_context entity_type = []) \<and>
   (sg_find_one_Sequence (sg dm)
      [project_is (HAL_PROJECT_SGID dm), Cond ''code'' ''is'' (SgStr category_part)] [''id''] = Inl e \<and>
    type_part \<noteq> [] \<and> CHR ''/'' \<notin> set type_part \<and> CHR ''/'' \<notin> set category_part \<longrightarrow>
      find_files_filters dm (type_part @ ''/'' @ category_part) ''Shot'' =
        [project_is (HAL_PROJECT_SGID dm), Cond ''sg_path_to_geometry'' ''is_not'' SgNone,
         Cond ''entity'' ''type_is'' (SgStr ''Shot'')])"
proof -
  have none: "get_active_projects dm = [] \<and> find_files lit dm tab_context entity_type = []"
    if "sg dm = None"
    using that by (simp add: get_active_projects_def find_files_def sg_find_Version_def)
  have projects: "get_active_projects dm = []"
    if "sg dm = Some st \<and>
        find_Project st [Cond ''sg_status'' ''is'' (SgStr ''Active'')] [''name'', ''id'', ''code''] = Inl e"
    using that by (simp add: get_active_projects_def)
  have versions: "find_files lit dm tab_context entity_type = []"
    if "sg dm = Some st \<and>
        find_Version st (find_files_filters dm tab_context entity_type) version_fields [] = Inl e"
    using that by (simp add: find_files_def sg_find_Version_def)
  have split2: "split_on c (xs @ c # ys) = [xs, ys]" if "c \<notin> set xs" "c \<notin> set ys" for c xs ys
    using that by (induction xs) (auto simp: split_on_absent)
  have lookup: "find_files_filters dm (type_part @ ''/'' @ category_part) ''Shot'' =
        [project_is (HAL_PROJECT_SGID dm), Cond ''sg_path_to_geometry'' ''is_not'' SgNone,
         Cond ''entity'' ''type_is'' (SgStr ''Shot'')]"
    if a: "sg_find_one_Sequence (sg dm)
            [project_is (HAL_PROJECT_SGID dm), Cond ''code'' ''is'' (SgStr category_part)] [''id''] = Inl e \<and>
          type_part \<noteq> [] \<and> CHR ''/'' \<notin> set type_part \<and> CHR ''/'' \<notin> set category_part"
  proof -
    from a have "split_on CHR ''/'' (type_part @ ''/'' @ category_part) = [type_part, category_part]"
      using split2 [of "CHR ''/''" type_part category_part] by simp
    with a show ?thesis by (simp add: find_files_filters_def)
  qed
  from none projects versions lookup show ?thesis by blast
qed

theorem store_failure_policy_witness:
  "get_active_projects \<lparr>sg = None, HAL_PROJECT_SGID = 5\<rparr> = [] \<and>
   find_files sample_literal_eval \<lparr>sg = None, HAL_PROJECT_SGID = 5\<rparr> ''mdl/props'' ''Asset'' = [] \<and>
   get_active_projects \<lparr>sg = Some failing_store, HAL_PROJECT_SGID = 5\<rparr> = [] \<and>
   find_files sample_literal_eval \<lparr>sg = Some failing_store, HAL_PROJECT_SGID = 5\<rparr> ''anim/SEQ01'' ''Shot'' = [] \<and>
   find_files_filters \<lparr>sg = Some lookup_failing_store, HAL_PROJECT_SGID = 5\<rparr> (''anim'' @ ''/'' @ ''SEQ01'') ''Shot'' =
     [project_is 5, Cond ''sg_path_to_geometry'' ''is_not'' SgNone,
      Cond ''entity'' ''type_is'' (SgStr ''Shot'')]"
proof -
  note none = store_failure_policy
    [of "\<lparr>sg = None, HAL_PROJECT_SGID = 5\<rparr>" sample_literal_eval "''mdl/props''" "''Asset''"]
  note fail = store_failure_policy
    [of "\<lparr>sg = Some failing_store, HAL_PROJECT_SGID = 5\<rparr>" sample_literal_eval
        "''anim/SEQ01''" "''Shot''" failing_store "PyException ''Fault''"]
  note lookup = store_failure_policy
    [of "\<lparr>sg = Some lookup_failing_store, HAL_PROJECT_SGID = 5\<rparr>" sample_literal_eval
        "''anim/SEQ01''" "''Shot''" lookup_failing_store "PyException ''Fault''" "''SEQ01''" "''anim''"]
  have f1: "find_Project failing_store x y = Inl (PyException ''Fault'')" for x y
    by (simp add: failing_store_def)
  have f2: "find_Version failing_store x y z = Inl (PyException ''Fault'')" for x y z
    by (simp add: failing_store_def)
  have f3: "sg_find_one_Sequence (Some lookup_failing_store) x y = Inl (PyException ''Fault'')" for x y
    by (simp add: sg_find_one_Sequence_def lookup_failing_store_def)
  from none fail lookup f1 f2 f3 show ?thesis by simp
qed

text \<open>
  The sequence lookup fails, the version query answers: \<open>find_files\<close> returns the
  version, not the empty list.
\<close>

theorem store_failure_policy_counterexample:
  "sg_find_one_Sequence (Some lookup_failing_store)
     [project_is 5, Cond ''code'' ''is'' (SgStr ''SEQ01'')] [''id''] = Inl (PyException ''Fault'') \<and>
   map vid (find_files sample_literal_eval \<lparr>sg = Some lookup_failing_store, HAL_PROJECT_SGID = 5\<rparr>
              ''anim/SEQ01'' ''Shot'') = [1]"
  by code_simp

section \<open>Properties of the pick-lists\<close>

lemma items_clear [simp]: "items (clear c) = []"
  and currentIndex_clear [simp]: "currentIndex (clear c) = -1"
  by (simp_all add: clear_def)

lemma items_addItem [simp]: "items (addItem t d c) = items c @ [(t, d)]"
  by (simp add: addItem_def)

lemma currentIndex_addItem:
  "currentIndex (addItem t d c) = (if items c = [] then 0 else currentIndex c)"
  by (simp add: addItem_def)

lemma fold_addItem:
  "items (foldl (\<lambda>c x. addItem (f x) (g x) c) c0 xs) = items c0 @ map (\<lambda>x. (f x, g x)) xs \<and>
   currentIndex (foldl (\<lambda>c x. addItem (f x) (g x) c) c0 xs) =
     (if items c0 = [] \<and> xs \<noteq> [] then 0 else currentIndex c0)"
proof (induction xs arbitrary: c0)
  case Nil
  show ?case by simp
next
  case (Cons x xs)
  show ?case
    using Cons [of "addItem (f x) (g x) c0"] by (simp add: currentIndex_addItem)
qed

lemma items_addItems [simp]: "items (addItems ts c) = items c @ map (\<lambda>t. (t, None)) ts"
  unfolding addItems_def using fold_addItem [of "\<lambda>t. t" "\<lambda>t. None" c ts] by simp

lemma currentIndex_addItems:
  "currentIndex (addItems ts c) = (if items c = [] \<and> ts \<noteq> [] then 0 else currentIndex c)"
  unfolding addItems_def using fold_addItem [of "\<lambda>t. t" "\<lambda>t. None" c ts] by simp

lemma index_of_range: "index_of t xs = -1 \<or> (0 \<le> index_of t xs \<and> index_of t xs < int (length xs))"
  by (induction xs) (auto simp: Let_def)

lemma index_of_absent: "index_of t xs = -1 \<longleftrightarrow> t \<notin> set xs"
proof (induction xs)
  case Nil
  show ?case by simp
next
  case (Cons x xs)
  from index_of_range [of t xs] have "index_of t xs + 1 \<noteq> -1" by auto
  with Cons show ?case by (simp add: Let_def)
qed

lemma index_of_nth: "t \<in> set xs \<Longrightarrow> xs ! nat (index_of t xs) = t"
proof (induction xs)
  case Nil
  then show ?case by simp
next
  case (Cons x xs)
  show ?case
  proof (cases "x = t")
    case True
    then show ?thesis by simp
  next
    case False
    with Cons.prems have m: "t \<in> set xs" by simp
    then have "index_of t xs \<noteq> -1" by (simp add: index_of_absent)
    with index_of_range [of t xs] have "0 \<le> index_of t xs" by auto
    then have "nat (index_of t xs + 1) = Suc (nat (index_of t xs))" by simp
    with False m Cons.IH show ?thesis
      by (simp add: Let_def index_of_absent)
  qed
qed

lemma findText_absent: "findText t c = -1 \<longleftrightarrow> t \<notin> fst ` set (items c)"
  by (simp add: findText_def index_of_absent)

lemma items_setCurrentText [simp]: "items (setCurrentText t c) = items c"
  by (simp add: setCurrentText_def Let_def)

lemma currentText_setCurrentText:
  assumes "findText t c \<noteq> -1"
  shows "currentText (setCurrentText t c) = t"
proof -
  let ?i = "index_of t (map fst (items c))"
  from assms have m: "t \<in> set (map fst (items c))"
    by (simp add: findText_def index_of_absent)
  from assms index_of_range [of t "map fst (items c)"]
  have r: "0 \<le> ?i" "?i < int (length (items c))" by (auto simp: findText_def)
  then have n: "nat ?i < length (items c)" by simp
  have "fst (items c ! nat ?i) = t"
    using index_of_nth [OF m] n by simp
  with r show ?thesis
    by (simp add: setCurrentText_def Let_def findText_def currentText_def currentItem_def)
qed

lemma currentItem_mem: "currentItem c = Some it \<Longrightarrow> it \<in> set (items c)"
  by (auto simp: currentItem_def split: if_splits)

lemma currentItem_setCurrentText_mem:
  "currentItem (setCurrentText t c) = Some it \<Longrightarrow> it \<in> set (items c)"
  using currentItem_mem [of "setCurrentText t c" it] by simp

lemma currentItem_empty: "items c = [] \<Longrightarrow> currentItem c = None"
  by (simp add: currentItem_def)

section \<open>Properties of the filter cascade\<close>

lemma currentItem_clear [simp]: "currentItem (clear c) = None"
  by (simp add: currentItem_def)

lemma handle_cancel_selection_result:
  "current_version_history (handle_cancel_selection st) = [] \<and>
   render_combo (handle_cancel_selection st) = clear (render_combo st) \<and>
   asset_filter_combo (handle_cancel_selection st) = clear (asset_filter_combo st) \<and>
   material_combo (handle_cancel_selection st) = clear (material_combo st) \<and>
   \<not> asset_filter_visible (handle_cancel_selection st) \<and>
   currently_selected_widget (handle_cancel_selection st) = None \<and>
   file_path_label (handle_cancel_selection st) = ''N/A'' \<and>
   publish_date_label (handle_cancel_selection st) = None"
  by (simp add: handle_cancel_selection_def update_displayed_info_def currentData_def)

text \<open>
  C9: when the fetch of the sibling history of the clicked card yields nothing,
  \<open>_query_and_populate_all_filters\<close> returns with the stored history empty, the three
  tiers without entries and without a current item, the sub-asset tier hidden, no card
  selected and the labels reset, whatever the panel showed before.
\<close>

theorem empty_history_resets_cascade:
  assumes "get_version_history_from_shotgun st widget = []"
  shows "\<exists>st'. query_and_populate_all_filters lit st widget = Inr st' \<and>
           handle_thumbnail_click lit st widget = Inr st' \<and>
           current_version_history st' = [] \<and>
           items (render_combo st') = [] \<and> currentIndex (render_combo st') = -1 \<and>
           items (asset_filter_combo st') = [] \<and> currentIndex (asset_filter_combo st') = -1 \<and>
           \<not> asset_filter_visible st' \<and>
           items (material_combo st') = [] \<and> currentIndex (material_combo st') = -1 \<and>
           selected_format st' = None \<and> selected_sub_asset st' = None \<and>
           selected_version st' = None \<and>
           currently_selected_widget st' = None \<and>
           file_path_label st' = ''N/A'' \<and> publish_date_label st' = None"
proof -
  let ?st' = "handle_cancel_selection (st\<lparr>current_version_history := []\<rparr>)"
  have q: "query_and_populate_all_filters lit st widget = Inr ?st'"
    using assms by (simp add: query_and_populate_all_filters_def)
  have same: "get_version_history_from_shotgun (st\<lparr>currently_selected_widget := Some widget\<rparr>) widget =
      get_version_history_from_shotgun st widget"
    by (simp add: get_version_history_from_shotgun_def Let_def split: option.splits)
  have c: "handle_thumbnail_click lit st widget = Inr ?st'"
    using assms same
    by (simp add: handle_thumbnail_click_def query_and_populate_all_filters_def
        handle_cancel_selection_def update_displayed_info_def currentData_def)
  from handle_cancel_selection_result [of "st\<lparr>current_version_history := []\<rparr>"]
  have "current_version_history ?st' = [] \<and>
           items (render_combo ?st') = [] \<and> currentIndex (render_combo ?st') = -1 \<and>
           items (asset_filter_combo ?st') = [] \<and> currentIndex (asset_filter_combo ?st') = -1 \<and>
           \<not> asset_filter_visible ?st' \<and>
           items (material_combo ?st') = [] \<and> currentIndex (material_combo ?st') = -1 \<and>
           selected_format ?st' = None \<and> selected_sub_asset ?st' = None \<and>
           selected_version ?st' = None \<and>
           currently_selected_widget ?st' = None \<and>
           file_path_label ?st' = ''N/A'' \<and> publish_date_label ?st' = None"
    by (simp add: selected_format_def selected_sub_asset_def selected_version_def currentData_def)
  with q c show ?thesis by blast
qed

theorem empty_history_resets_cascade_witness:
  "currentText (render_combo (loaded_ui None)) = ''abc'' \<and>
   currentText (material_combo (loaded_ui None)) = ''chair_mdl_v001'' \<and>
   length (current_version_history (loaded_ui None)) = 2 \<and>
   (\<exists>st'. query_and_populate_all_filters sample_literal_eval (loaded_ui None) sample_card = Inr st' \<and>
           handle_thumbnail_click sample_literal_eval (loaded_ui None) sample_card = Inr st' \<and>
           current_version_history st' = [] \<and>
           items (render_combo st') = [] \<and> currentIndex (render_combo st') = -1 \<and>
           items (asset_filter_combo st') = [] \<and> currentIndex (asset_filter_combo st') = -1 \<and>
           \<not> asset_filter_visible st' \<and>
           items (material_combo st') = [] \<and> currentIndex (material_combo st') = -1 \<and>
           selected_format st' = None \<and> selected_sub_asset st' = None \<and>
           selected_version st' = None \<and>
           currently_selected_widget st' = None \<and>
           file_path_label st' = ''N/A'' \<and> publish_date_label st' = None)"
proof -
  have stale: "currentText (render_combo (loaded_ui None)) = ''abc'' \<and>
      currentText (material_combo (loaded_ui None)) = ''chair_mdl_v001'' \<and>
      length (current_version_history (loaded_ui None)) = 2"
    by code_simp
  have none: "get_version_history_from_shotgun (loaded_ui None) sample_card = []"
    by code_simp
  from stale empty_history_resets_cascade [OF none, of sample_literal_eval]
  show ?thesis by blast
qed

subsection \<open>The selection invariant\<close>

lemma update_displayed_info_fields [simp]:
  "render_combo (update_displayed_info st) = render_combo st"
  "asset_filter_combo (update_displayed_info st) = asset_filter_combo st"
  "asset_filter_visible (update_displayed_info st) = asset_filter_visible st"
  "material_combo (update_displayed_info st) = material_combo st"
  "current_version_history (update_displayed_info st) = current_version_history st"
  by (simp_all add: update_displayed_info_def Let_def split: option.splits)

lemma selected_sub_asset_same [simp]:
  "selected_sub_asset (st\<lparr>material_combo := m\<rparr>) = selected_sub_asset st"
  "selected_sub_asset (st\<lparr>render_combo := r\<rparr>) = selected_sub_asset st"
  "selected_sub_asset (update_displayed_info st) = selected_sub_asset st"
  by (simp_all add: selected_sub_asset_def)

lemma cascade_inv_alt:
  "cascade_inv st \<longleftrightarrow>
     (\<forall>it \<in> set (items (render_combo st)).
          fst it \<in> set (available_formats (current_version_history st))) \<and>
     (\<forall>it \<in> set (items (material_combo st)).
          \<exists>v. snd it = Some v \<and>
              v \<in> set (versions_for_selection (current_version_history st)
                         (currentText (render_combo st)) (selected_sub_asset st)))"
  by (auto simp: cascade_inv_def split: option.splits)

lemma update_dependent_filters_same [simp]:
  "render_combo (update_dependent_filters st) = render_combo st"
  "current_version_history (update_dependent_filters st) = current_version_history st"
  by (simp_all add: update_dependent_filters_def Let_def)

lemma update_dependent_filters_items:
  assumes "current_version_history st \<noteq> []"
  shows "items (material_combo (update_dependent_filters st)) =
           map (\<lambda>v. (display_code (currentText (render_combo st)) v, Some v))
             (sort_key (\<lambda>v. - created_at v)
                (versions_for_selection (current_version_history st)
                   (currentText (render_combo st))
                   (selected_sub_asset (update_dependent_filters st))))"
proof -
  have ff: "filter P (filter Q xs) = filter (\<lambda>x. Q x \<and> P x) xs" for P Q and xs :: "'a list"
    by (induction xs) auto
  show ?thesis
    using assms
    unfolding update_dependent_filters_def Let_def
    by (simp add: fold_addItem selected_sub_asset_def versions_for_selection_def ff)
qed


lemma update_dependent_filters_index:
  assumes "current_version_history st \<noteq> []"
  shows "currentIndex (material_combo (update_dependent_filters st)) =
           (if items (material_combo (update_dependent_filters st)) = [] then -1 else 0)"
  using assms
  unfolding update_dependent_filters_def Let_def
  by (simp add: fold_addItem)

lemma cascade_inv_update_dependent_filters:
  assumes "cascade_inv st"
  shows "cascade_inv (update_dependent_filters st)"
proof (cases "current_version_history st = []")
  case True
  then have "update_dependent_filters st = st"
    by (simp add: update_dependent_filters_def)
  with assms show ?thesis by simp
next
  case False
  from assms have "\<forall>it \<in> set (items (render_combo st)).
      fst it \<in> set (available_formats (current_version_history st))"
    by (simp add: cascade_inv_alt)
  then show ?thesis
    unfolding cascade_inv_alt
    by (auto simp: update_dependent_filters_items [OF False])
qed

lemma cascade_inv_update_displayed_info:
  "cascade_inv (update_displayed_info st) = cascade_inv st"
  by (simp add: cascade_inv_alt)

lemma cascade_inv_handle_cancel_selection: "cascade_inv (handle_cancel_selection st)"
  using handle_cancel_selection_result [of st] by (simp add: cascade_inv_alt)

lemma cascade_inv_material_index:
  "cascade_inv (st\<lparr>material_combo := (material_combo st)\<lparr>currentIndex := i\<rparr>\<rparr>) = cascade_inv st"
  by (simp add: cascade_inv_alt)

lemma cascade_inv_material_setCurrentText:
  assumes "cascade_inv st"
  shows "cascade_inv (material_setCurrentText t st)"
proof -
  have "cascade_inv (st\<lparr>material_combo := setCurrentText t (material_combo st)\<rparr>)"
    using assms by (simp add: cascade_inv_alt)
  then show ?thesis
    by (simp add: material_setCurrentText_def Let_def cascade_inv_update_displayed_info)
qed

lemma cascade_inv_user_picks:
  assumes "cascade_inv st"
  shows "cascade_inv (user_picks_format i st)"
    and "cascade_inv (user_picks_sub_asset i st)"
    and "cascade_inv (user_picks_version i st)"
proof -
  have "cascade_inv (update_dependent_filters (st\<lparr>render_combo := (render_combo st)\<lparr>currentIndex := i\<rparr>\<rparr>))"
    if "current_version_history st \<noteq> []"
  proof -
    let ?st1 = "st\<lparr>render_combo := (render_combo st)\<lparr>currentIndex := i\<rparr>\<rparr>"
    from assms have "\<forall>it \<in> set (items (render_combo ?st1)).
        fst it \<in> set (available_formats (current_version_history ?st1))"
      by (simp add: cascade_inv_alt)
    moreover have h: "current_version_history ?st1 \<noteq> []" using that by simp
    ultimately show ?thesis
      unfolding cascade_inv_alt
      by (auto simp: update_dependent_filters_items [OF h])
  qed
  moreover have "items (render_combo st) = []" if "current_version_history st = []"
    using assms that by (cases "items (render_combo st)") (auto simp: cascade_inv_alt available_formats_def)
  ultimately show "cascade_inv (user_picks_format i st)"
    using assms by (cases "current_version_history st = []") (auto simp: user_picks_format_def)
next
  let ?st1 = "st\<lparr>asset_filter_combo := (asset_filter_combo st)\<lparr>currentIndex := i\<rparr>\<rparr>"
  show "cascade_inv (user_picks_sub_asset i st)"
  proof (cases "current_version_history st = []")
    case True
    then have "update_dependent_filters ?st1 = ?st1"
      by (simp add: update_dependent_filters_def)
    moreover have "cascade_inv ?st1"
      using assms True by (simp add: cascade_inv_alt versions_for_selection_def)
    ultimately show ?thesis using assms by (simp add: user_picks_sub_asset_def)
  next
    case False
    then have h: "current_version_history ?st1 \<noteq> []" by simp
    from assms have "\<forall>it \<in> set (items (render_combo ?st1)).
        fst it \<in> set (available_formats (current_version_history ?st1))"
      by (simp add: cascade_inv_alt)
    then have "cascade_inv (update_dependent_filters ?st1)"
      unfolding cascade_inv_alt
      by (auto simp: update_dependent_filters_items [OF h])
    with assms show ?thesis by (simp add: user_picks_sub_asset_def)
  qed
next
  show "cascade_inv (user_picks_version i st)"
    using assms
    by (simp add: user_picks_version_def cascade_inv_update_displayed_info cascade_inv_material_index)
qed

lemma cascade_inv_consistent:
  assumes "cascade_inv st"
  shows "selection_consistent st"
proof -
  have f: "f \<in> set (available_formats (current_version_history st))" if "selected_format st = Some f" for f
  proof -
    from that obtain it where "currentItem (render_combo st) = Some it" "fst it = f"
      by (auto simp: selected_format_def)
    with currentItem_mem [of "render_combo st" it] assms show ?thesis
      by (auto simp: cascade_inv_alt)
  qed
  have v: "v \<in> set (versions_for_selection (current_version_history st)
                 (currentText (render_combo st)) (selected_sub_asset st))"
    if "selected_version st = Some v" for v
  proof -
    from that obtain it where "currentItem (material_combo st) = Some it" "snd it = Some v"
      by (auto simp: selected_version_def currentData_def split: option.splits)
    with currentItem_mem [of "material_combo st" it] assms show ?thesis
      by (fastforce simp: cascade_inv_alt)
  qed
  from f v show ?thesis
    by (auto simp: selection_consistent_def split: option.splits)
qed

lemma populate_history_Inr:
  "\<exists>h. populate_history lit raw = Inr h \<and> length h = length raw"
proof (induction raw)
  case Nil
  show ?case by simp
next
  case (Cons v vs)
  from flatten_total [of lit "sg_path_to_geometry v"] obtain ps where
    "flatten_and_clean_paths lit (sg_path_to_geometry v) = Inr ps" by blast
  with Cons show ?case by auto
qed

lemma query_and_populate_empty:
  assumes "get_version_history_from_shotgun st widget = []"
  shows "query_and_populate_all_filters lit st widget =
           Inr (handle_cancel_selection (st\<lparr>current_version_history := []\<rparr>))"
  using assms by (simp add: query_and_populate_all_filters_def)

lemma query_and_populate_loaded:
  assumes "get_version_history_from_shotgun st widget \<noteq> []"
  shows "\<exists>h rc st1. h \<noteq> [] \<and>
            populate_history lit (get_version_history_from_shotgun st widget) = Inr h \<and>
            items rc = map (\<lambda>t. (t, None)) (available_formats h) \<and>
            currentText rc =
              (if currentText (render_combo st) \<noteq> [] \<and>
                  currentText (render_combo st) \<in> set (available_formats h)
               then currentText (render_combo st)
               else (case available_formats h of [] \<Rightarrow> [] | g # _ \<Rightarrow> g)) \<and>
            st1 = update_dependent_filters (st\<lparr>current_version_history := h, render_combo := rc\<rparr>) \<and>
            query_and_populate_all_filters lit st widget =
              Inr (if currentText (material_combo st) \<noteq> [] \<and>
                      findText (currentText (material_combo st)) (material_combo st1) \<noteq> -1
                   then material_setCurrentText (currentText (material_combo st)) st1 else st1)"
proof -
  from populate_history_Inr [of lit "get_version_history_from_shotgun st widget"]
  obtain h where h: "populate_history lit (get_version_history_from_shotgun st widget) = Inr h"
    and len: "length h = length (get_version_history_from_shotgun st widget)" by blast
  from len assms have ne: "h \<noteq> []" by auto
  define rc0 where "rc0 = addItems (available_formats h) (clear (render_combo st))"
  define cur_fmt where "cur_fmt = currentText (render_combo st)"
  define rc where "rc = (if cur_fmt \<noteq> [] \<and> findText cur_fmt rc0 \<noteq> -1
                            then setCurrentText cur_fmt rc0 else rc0)"
  have it0: "items rc0 = map (\<lambda>t. (t, None)) (available_formats h)"
    by (simp add: rc0_def)
  have it: "items rc = map (\<lambda>t. (t, None)) (available_formats h)"
    by (simp add: rc_def it0)
  have mem: "findText t rc0 \<noteq> -1 \<longleftrightarrow> t \<in> set (available_formats h)" for t
    by (simp add: findText_absent it0 image_image)
  have first: "currentText rc0 = (case available_formats h of [] \<Rightarrow> [] | g # _ \<Rightarrow> g)"
    by (cases "available_formats h")
       (simp_all add: rc0_def currentText_def currentItem_def currentIndex_addItems)
  have ct: "currentText rc =
      (if cur_fmt \<noteq> [] \<and> cur_fmt \<in> set (available_formats h) then cur_fmt
       else (case available_formats h of [] \<Rightarrow> [] | g # _ \<Rightarrow> g))"
    using first mem [of cur_fmt] currentText_setCurrentText [of cur_fmt rc0]
    by (auto simp: rc_def)
  have "query_and_populate_all_filters lit st widget =
      Inr (let st1 = update_dependent_filters (st\<lparr>current_version_history := h, render_combo := rc\<rparr>)
           in if currentText (material_combo st) \<noteq> [] \<and>
                 findText (currentText (material_combo st)) (material_combo st1) \<noteq> -1
              then material_setCurrentText (currentText (material_combo st)) st1 else st1)"
    by (simp only: query_and_populate_all_filters_def Let_def assms h if_False sum.case
        rc_def rc0_def cur_fmt_def)
  with ne h it ct show ?thesis
    unfolding cur_fmt_def Let_def by blast
qed

lemma query_and_populate_returns: "\<exists>st'. query_and_populate_all_filters lit st widget = Inr st'"
  using query_and_populate_empty [of st widget lit] query_and_populate_loaded [of st widget lit]
  by (cases "get_version_history_from_shotgun st widget = []") auto

lemma cascade_inv_query_and_populate:
  assumes "query_and_populate_all_filters lit st widget = Inr st'"
  shows "cascade_inv st'"
proof (cases "get_version_history_from_shotgun st widget = []")
  case True
  from query_and_populate_empty [OF True, of lit] assms show ?thesis
    by (auto simp: cascade_inv_handle_cancel_selection)
next
  case False
  from query_and_populate_loaded [OF False, of lit]
  obtain h rc st1 where a: "h \<noteq> []" "items rc = map (\<lambda>t. (t, None)) (available_formats h)"
    "st1 = update_dependent_filters (st\<lparr>current_version_history := h, render_combo := rc\<rparr>)"
    and q: "query_and_populate_all_filters lit st widget =
              Inr (if currentText (material_combo st) \<noteq> [] \<and>
                      findText (currentText (material_combo st)) (material_combo st1) \<noteq> -1
                   then material_setCurrentText (currentText (material_combo st)) st1 else st1)"
    by blast
  from q assms
  have "st' = st1 \<or> st' = material_setCurrentText (currentText (material_combo st)) st1"
    by (auto split: if_splits)
  note a this
  note 2 = this
  let ?st0 = "st\<lparr>current_version_history := h, render_combo := rc\<rparr>"
  have h: "current_version_history ?st0 \<noteq> []" using 2(1) by simp
  have "\<forall>it \<in> set (items (render_combo ?st0)).
      fst it \<in> set (available_formats (current_version_history ?st0))"
    using 2(2) by auto
  then have "cascade_inv st1"
    unfolding cascade_inv_alt 2(3)
    by (auto simp: update_dependent_filters_items [OF h])
  with 2(4) show ?thesis
    by (auto simp: cascade_inv_material_setCurrentText)
qed


text \<open>
  C6: the selection is consistent after every recomputation of the cascade. A click on a
  card (from any state of the panel) and a cancel establish the invariant \<open>cascade_inv\<close>;
  from a state that satisfies it, \<open>_update_dependent_filters\<close> (run directly, or by the
  user picking a format or a sub-asset) and the user picking a version keep it; and a
  state that satisfies it has its selected format, when one is set, among the format
  tokens of the history's paths, and its selected version, when one is set, among the
  records of the history that have a path of the selected format and the selected
  sub-asset (no sub-asset, for the synthetic tag).
\<close>

theorem cascade_selection_consistent:
  "(\<exists>st'. query_and_populate_all_filters lit st widget = Inr st' \<and>
          cascade_inv st' \<and> selection_consistent st') \<and>
   cascade_inv (handle_cancel_selection st) \<and>
   selection_consistent (handle_cancel_selection st) \<and>
   (cascade_inv st \<longrightarrow>
      selection_consistent st \<and>
      cascade_inv (update_dependent_filters st) \<and>
      selection_consistent (update_dependent_filters st) \<and>
      cascade_inv (user_picks_format i st) \<and>
      selection_consistent (user_picks_format i st) \<and>
      cascade_inv (user_picks_sub_asset i st) \<and>
      selection_consistent (user_picks_sub_asset i st) \<and>
      cascade_inv (user_picks_version i st) \<and>
      selection_consistent (user_picks_version i st))"
proof -
  from query_and_populate_returns [of lit st widget]
  obtain st' where q: "query_and_populate_all_filters lit st widget = Inr st'" by blast
  from cascade_inv_query_and_populate [OF q] cascade_inv_consistent
  have a: "\<exists>st'. query_and_populate_all_filters lit st widget = Inr st' \<and>
          cascade_inv st' \<and> selection_consistent st'"
    using q by blast
  have b: "cascade_inv (handle_cancel_selection st) \<and>
      selection_consistent (handle_cancel_selection st)"
    using cascade_inv_handle_cancel_selection cascade_inv_consistent by blast
  have c: "selection_consistent st \<and>
      cascade_inv (update_dependent_filters st) \<and>
      selection_consistent (update_dependent_filters st) \<and>
      cascade_inv (user_picks_format i st) \<and>
      selection_consistent (user_picks_format i st) \<and>
      cascade_inv (user_picks_sub_asset i st) \<and>
      selection_consistent (user_picks_sub_asset i st) \<and>
      cascade_inv (user_picks_version i st) \<and>
      selection_consistent (user_picks_version i st)" if inv: "cascade_inv st"
    using cascade_inv_update_dependent_filters [OF inv] cascade_inv_user_picks [OF inv, of i]
      cascade_inv_consistent inv
    by blast
  from a b c show ?thesis by blast
qed

theorem cascade_selection_consistent_witness:
  "cascade_inv (loaded_ui None) \<and>
   selected_format (loaded_ui None) = Some ''abc'' \<and>
   map_option vid (selected_version (loaded_ui None)) = Some 11 \<and>
   selection_consistent (loaded_ui None) \<and>
   selection_consistent (user_picks_format 1 (loaded_ui None)) \<and>
   selected_format (user_picks_format 1 (loaded_ui None)) = Some ''usd'' \<and>
   (\<exists>st'. query_and_populate_all_filters sample_literal_eval
            (loaded_ui (Some (history_store history_usd))) sample_card = Inr st' \<and>
          cascade_inv st' \<and> selection_consistent st')"
proof -
  have inv: "cascade_inv (loaded_ui None)"
    by code_simp
  have sel: "selected_format (loaded_ui None) = Some ''abc'' \<and>
      map_option vid (selected_version (loaded_ui None)) = Some 11 \<and>
      selected_format (user_picks_format 1 (loaded_ui None)) = Some ''usd''"
    by code_simp
  from cascade_selection_consistent
         [of sample_literal_eval "loaded_ui (Some (history_store history_usd))" sample_card]
       cascade_selection_consistent [of sample_literal_eval "loaded_ui None" sample_card 1]
       inv sel
  show ?thesis by blast
qed

subsection \<open>Sticky selection\<close>

lemma material_setCurrentText_fields [simp]:
  "render_combo (material_setCurrentText t st) = render_combo st"
  "asset_filter_combo (material_setCurrentText t st) = asset_filter_combo st"
  "current_version_history (material_setCurrentText t st) = current_version_history st"
  "material_combo (material_setCurrentText t st) = setCurrentText t (material_combo st)"
  by (simp_all add: material_setCurrentText_def Let_def)

lemma populate_history_asset_name:
  "populate_history lit raw = Inr h \<Longrightarrow> v \<in> set h \<Longrightarrow> asset_name v = None"
proof (induction raw arbitrary: h)
  case Nil
  then show ?case by simp
next
  case (Cons r raw)
  then show ?case by (auto split: sum.splits)
qed

lemma asset_names_none: "(\<And>v. v \<in> set vs \<Longrightarrow> asset_name v = None) \<Longrightarrow> asset_names vs = []"
proof -
  assume a: "\<And>v. v \<in> set vs \<Longrightarrow> asset_name v = None"
  then have *: "concat (map (\<lambda>v. case asset_name v of
                                   Some a \<Rightarrow> if a \<noteq> [] then [a] else []
                                 | None \<Rightarrow> []) vs) = []"
    by (induction vs) auto
  show ?thesis unfolding asset_names_def * by simp
qed

lemma update_dependent_filters_asset_combo:
  assumes "current_version_history st \<noteq> []"
  shows "asset_filter_combo (update_dependent_filters st) =
           (let assets = asset_names (filter (has_format (currentText (render_combo st)))
                                        (current_version_history st));
                filled = addItem NO_ASSET_FILTER_TAG None
                           (addItems assets (clear (asset_filter_combo st)))
            in if assets \<noteq> []
               then (if currentText (asset_filter_combo st) \<noteq> []
                     then setCurrentText (currentText (asset_filter_combo st)) filled else filled)
               else clear (asset_filter_combo st))"
  using assms unfolding update_dependent_filters_def Let_def by simp

lemma update_dependent_filters_sticky_sub_asset:
  assumes "current_version_history st \<noteq> []"
    and "currentText (asset_filter_combo st) \<noteq> []"
    and "currentText (asset_filter_combo st)
           \<in> fst ` set (items (asset_filter_combo (update_dependent_filters st)))"
  shows "currentText (asset_filter_combo (update_dependent_filters st)) =
           currentText (asset_filter_combo st)"
proof -
  define assets where
    "assets = asset_names (filter (has_format (currentText (render_combo st)))
                             (current_version_history st))"
  define filled where
    "filled = addItem NO_ASSET_FILTER_TAG None (addItems assets (clear (asset_filter_combo st)))"
  note afc = update_dependent_filters_asset_combo [OF assms(1), unfolded Let_def,
      folded assets_def, folded filled_def]
  show ?thesis
  proof (cases "assets = []")
    case True
    with afc assms(3) show ?thesis by simp
  next
    case False
    with afc assms(2) have eq: "asset_filter_combo (update_dependent_filters st) =
        setCurrentText (currentText (asset_filter_combo st)) filled" by simp
    with assms(3) have "findText (currentText (asset_filter_combo st)) filled \<noteq> -1"
      by (simp add: findText_absent)
    from currentText_setCurrentText [OF this] eq show ?thesis by simp
  qed
qed

lemma query_and_populate_sticky:
  assumes ne: "get_version_history_from_shotgun st widget \<noteq> []"
    and q: "query_and_populate_all_filters lit st widget = Inr st'"
  shows "currentText (render_combo st') =
           (if currentText (render_combo st) \<noteq> [] \<and>
               currentText (render_combo st) \<in> set (available_formats (current_version_history st'))
            then currentText (render_combo st)
            else (case available_formats (current_version_history st') of [] \<Rightarrow> [] | g # _ \<Rightarrow> g))"
    and "currentText (material_combo st) \<noteq> [] \<and>
         currentText (material_combo st) \<in> fst ` set (items (material_combo st')) \<longrightarrow>
           currentText (material_combo st') = currentText (material_combo st)"
    and "items (asset_filter_combo st') = []"
proof -
  from query_and_populate_loaded [OF ne, of lit]
  obtain h rc st1 where h: "h \<noteq> []"
    and p: "populate_history lit (get_version_history_from_shotgun st widget) = Inr h"
    and ct: "currentText rc =
              (if currentText (render_combo st) \<noteq> [] \<and>
                  currentText (render_combo st) \<in> set (available_formats h)
               then currentText (render_combo st)
               else (case available_formats h of [] \<Rightarrow> [] | g # _ \<Rightarrow> g))"
    and st1: "st1 = update_dependent_filters (st\<lparr>current_version_history := h, render_combo := rc\<rparr>)"
    and q': "query_and_populate_all_filters lit st widget =
              Inr (if currentText (material_combo st) \<noteq> [] \<and>
                      findText (currentText (material_combo st)) (material_combo st1) \<noteq> -1
                   then material_setCurrentText (currentText (material_combo st)) st1 else st1)"
    by blast
  let ?l = "currentText (material_combo st)"
  from q q' have st': "st' = (if ?l \<noteq> [] \<and> findText ?l (material_combo st1) \<noteq> -1
                               then material_setCurrentText ?l st1 else st1)"
    by simp
  have r: "render_combo st' = rc" and hist: "current_version_history st' = h"
    using st' st1 by (auto split: if_splits)
  from ct r hist show "currentText (render_combo st') =
           (if currentText (render_combo st) \<noteq> [] \<and>
               currentText (render_combo st) \<in> set (available_formats (current_version_history st'))
            then currentText (render_combo st)
            else (case available_formats (current_version_history st') of [] \<Rightarrow> [] | g # _ \<Rightarrow> g))"
    by simp
  have it: "items (material_combo st') = items (material_combo st1)"
    using st' by (auto split: if_splits)
  show "?l \<noteq> [] \<and> ?l \<in> fst ` set (items (material_combo st')) \<longrightarrow>
           currentText (material_combo st') = ?l"
  proof
    assume a: "?l \<noteq> [] \<and> ?l \<in> fst ` set (items (material_combo st'))"
    with it have f: "findText ?l (material_combo st1) \<noteq> -1"
      by (simp add: findText_absent)
    with a st' have "material_combo st' = setCurrentText ?l (material_combo st1)" by simp
    with currentText_setCurrentText [OF f] show "currentText (material_combo st') = ?l" by simp
  qed
  let ?st0 = "st\<lparr>current_version_history := h, render_combo := rc\<rparr>"
  have "asset_names (filter (has_format (currentText (render_combo ?st0)))
                      (current_version_history ?st0)) = []"
    by (rule asset_names_none) (use populate_history_asset_name [OF p] in auto)
  with update_dependent_filters_asset_combo [of ?st0] h
  have "items (asset_filter_combo st1) = []"
    by (simp add: st1 Let_def)
  then show "items (asset_filter_combo st') = []"
    using st' by (auto split: if_splits)
qed

text \<open>
  C3, as the code has it. When a card is clicked and its history fetched anew, the format
  shown before is selected again if the new history has it, and otherwise the first of the
  sorted formats is selected (no format only when the history has none); the version
  label shown before is selected again if the recomputed version tier has it; the
  sub-asset tier is emptied, the fetch setting no sub-asset on any record. When
  \<open>_update_dependent_filters\<close> runs because the format or the sub-asset tier changed, the
  sub-asset shown before is selected again if the recomputed tier has it, and the version
  tier selects its first entry.
\<close>

theorem sticky_selection:
  "(get_version_history_from_shotgun st widget \<noteq> [] \<and>
    query_and_populate_all_filters lit st widget = Inr st' \<longrightarrow>
      currentText (render_combo st') =
        (if currentText (render_combo st) \<noteq> [] \<and>
            currentText (render_combo st) \<in> set (available_formats (current_version_history st'))
         then currentText (render_combo st)
         else (case available_formats (current_version_history st') of [] \<Rightarrow> [] | g # _ \<Rightarrow> g)) \<and>
      (currentText (material_combo st) \<noteq> [] \<and>
       currentText (material_combo st) \<in> fst ` set (items (material_combo st')) \<longrightarrow>
         currentText (material_combo st') = currentText (material_combo st)) \<and>
      items (asset_filter_combo st') = []) \<and>
   (current_version_history st \<noteq> [] \<and> currentText (asset_filter_combo st) \<noteq> [] \<and>
    currentText (asset_filter_combo st)
      \<in> fst ` set (items (asset_filter_combo (update_dependent_filters st))) \<longrightarrow>
      currentText (asset_filter_combo (update_dependent_filters st)) =
        currentText (asset_filter_combo st)) \<and>
   (current_version_history st \<noteq> [] \<longrightarrow>
      currentIndex (material_combo (update_dependent_filters st)) =
        (if items (material_combo (update_dependent_filters st)) = [] then -1 else 0))"
  using query_and_populate_sticky [of st widget lit st']
    update_dependent_filters_sticky_sub_asset [of st]
    update_dependent_filters_index [of st]
  by blast

theorem sticky_selection_witness:
  "currentText (render_combo (loaded_ui (Some (history_store history_abc_usd)))) = ''abc'' \<and>
   currentText (material_combo (loaded_ui (Some (history_store history_abc_usd)))) = ''chair_mdl_v001'' \<and>
   (\<exists>st'. query_and_populate_all_filters sample_literal_eval
            (loaded_ui (Some (history_store history_abc_usd))) sample_card = Inr st' \<and>
          currentText (render_combo st') = ''abc'' \<and>
          currentText (material_combo st') = ''chair_mdl_v001'')"
proof -
  let ?st = "loaded_ui (Some (history_store history_abc_usd))"
  let ?q = "query_and_populate_all_filters sample_literal_eval ?st sample_card"
  from query_and_populate_returns [of sample_literal_eval ?st sample_card]
  obtain st' where q: "?q = Inr st'" by blast
  then have p: "projr ?q = st'" by simp
  have ne: "get_version_history_from_shotgun ?st sample_card \<noteq> []"
    by code_simp
  have before: "currentText (render_combo ?st) = ''abc'' \<and>
      currentText (material_combo ?st) = ''chair_mdl_v001''"
    by code_simp
  have "''abc'' \<in> set (available_formats (current_version_history (projr ?q))) \<and>
      ''chair_mdl_v001'' \<in> fst ` set (items (material_combo (projr ?q)))"
    by code_simp
  then have after: "''abc'' \<in> set (available_formats (current_version_history st')) \<and>
      ''chair_mdl_v001'' \<in> fst ` set (items (material_combo st'))"
    unfolding p .
  from sticky_selection [of ?st sample_card sample_literal_eval st'] ne q before after
  have "currentText (render_combo st') = ''abc'' \<and>
      currentText (material_combo st') = ''chair_mdl_v001''"
    by simp
  with q before show ?thesis by blast
qed

text \<open>
  Two runs against the claim as worded. A click that fetches a history with \<open>usd\<close>
  files only, while \<open>abc\<close> is selected: the format selected afterwards is \<open>usd\<close>, not
  none. And the user changing the format from \<open>abc\<close> to \<open>usd\<close> while the older version
  is selected: the recomputed version tier still offers that version and selects the
  newer one.
\<close>

theorem sticky_selection_counterexample:
  "currentText (render_combo (loaded_ui (Some (history_store history_usd)))) = ''abc'' \<and>
   \<not> isl (query_and_populate_all_filters sample_literal_eval
            (loaded_ui (Some (history_store history_usd))) sample_card) \<and>
   ''abc'' \<notin> set (available_formats (current_version_history
      (projr (query_and_populate_all_filters sample_literal_eval
                (loaded_ui (Some (history_store history_usd))) sample_card)))) \<and>
   selected_format
      (projr (query_and_populate_all_filters sample_literal_eval
                (loaded_ui (Some (history_store history_usd))) sample_card)) = Some ''usd'' \<and>
   currentText (material_combo (loaded_ui None)) = ''chair_mdl_v001'' \<and>
   findText ''chair_mdl_v001'' (material_combo (user_picks_format 1 (loaded_ui None))) = 1 \<and>
   currentText (material_combo (user_picks_format 1 (loaded_ui None))) = ''chair_mdl_v002''"
  by code_simp

subsection \<open>Display labels\<close>

lemma v_digits_here_append: "v_digits_here cs \<Longrightarrow> v_digits_here (cs @ xs)"
  by (auto simp: v_digits_here_def split: list.splits)

lemma v_digits_here_Cons: "v_digits_here cs \<Longrightarrow> cs = CHR ''v'' # tl cs"
  by (auto simp: v_digits_here_def split: list.splits)

lemma re_sub_version_none: "re_search_version s = None \<Longrightarrow> re_sub_version repl s = s"
  by (induction s) (auto split: if_splits)

lemma re_sub_version_first:
  "re_search_version s = Some ds \<Longrightarrow>
   \<exists>pre post. s = pre @ ''_v'' @ ds @ post \<and> re_search_version pre = None \<and>
              re_sub_version repl s = pre @ repl @ post"
proof (induction s)
  case Nil
  then show ?case by simp
next
  case (Cons c cs)
  show ?case
  proof (cases "c = CHR ''_'' \<and> v_digits_here cs")
    case True
    with Cons.prems have ds: "ds = takeWhile is_digit (tl cs)" by simp
    from True have cs: "cs = CHR ''v'' # tl cs" by (simp add: v_digits_here_Cons)
    have "tl cs = ds @ dropWhile is_digit (tl cs)" by (simp add: ds)
    with cs have "cs = CHR ''v'' # ds @ dropWhile is_digit (tl cs)" by simp
    then have "c # cs = [] @ ''_v'' @ ds @ dropWhile is_digit (tl cs)"
      using True by simp
    moreover have "re_sub_version repl (c # cs) = [] @ repl @ dropWhile is_digit (tl cs)"
      using True by simp
    ultimately show ?thesis
      by (intro exI [of _ "[]"] exI [of _ "dropWhile is_digit (tl cs)"]) simp
  next
    case False
    with Cons.prems have "re_search_version cs = Some ds" by (simp split: if_splits)
    from Cons.IH [OF this] obtain pre post where cs: "cs = pre @ ''_v'' @ ds @ post"
      and pre: "re_search_version pre = None"
      and sub: "re_sub_version repl cs = pre @ repl @ post" by blast
    have "\<not> (c = CHR ''_'' \<and> v_digits_here pre)"
      using False v_digits_here_append [of pre "''_v'' @ ds @ post"] cs by auto
    with pre have "re_search_version (c # pre) = None" by auto
    moreover have "c # cs = (c # pre) @ ''_v'' @ ds @ post" using cs by simp
    moreover have "re_sub_version repl (c # cs) = (c # pre) @ repl @ post"
      using False sub by auto
    ultimately show ?thesis by blast
  qed
qed

lemma display_code_cases:
  "display_code fmt v =
     (case find (\<lambda>p. get_file_format (PStr p) = fmt) (sg_path_to_geometry v) of
        None \<Rightarrow> code v
      | Some p \<Rightarrow>
          (case extract_version_from_path p of
             None \<Rightarrow> code v
           | Some pv \<Rightarrow> re_sub_version (CHR ''_'' # pv) (code v)))"
  by (auto simp: display_code_def Let_def split: option.splits)

lemma update_dependent_filters_labels:
  assumes "current_version_history st \<noteq> []"
    and "it \<in> set (items (material_combo (update_dependent_filters st)))"
  shows "\<exists>w \<in> set (current_version_history st).
           it = (display_code (currentText (render_combo st)) w, Some w)"
  using assms(2) unfolding update_dependent_filters_items [OF assms(1)]
  by (auto simp: versions_for_selection_def)

text \<open>
  C7, as the code has it: the label of a version in the version tier is computed from the
  first path of the record whose format token is the chosen format. If that path holds a
  segment \<open>v<digits>\<close> after a \<open>/\<close> or a \<open>_\<close>, the first such segment replaces the
  first \<open>_v<digits>\<close> of the code (as \<open>_\<close> and the segment); the label is the code
  itself when the record has no path of the format, when that first path holds no such
  segment, and when the code holds no \<open>_v<digits>\<close>. The entry's user data is the record
  of the history itself, and the history is left as it was.
\<close>

theorem display_code_substitutes_first_path:
  "(find (\<lambda>p. get_file_format (PStr p) = fmt) (sg_path_to_geometry v) = Some p \<and>
    extract_version_from_path p = Some pv \<and> re_search_version (code v) = Some ds \<longrightarrow>
      (\<exists>pre post. code v = pre @ ''_v'' @ ds @ post \<and> re_search_version pre = None \<and>
                  display_code fmt v = pre @ ''_'' @ pv @ post)) \<and>
   (find (\<lambda>p. get_file_format (PStr p) = fmt) (sg_path_to_geometry v) = None \<or>
    (find (\<lambda>p. get_file_format (PStr p) = fmt) (sg_path_to_geometry v) = Some p \<and>
     extract_version_from_path p = None) \<or>
    re_search_version (code v) = None \<longrightarrow>
      display_code fmt v = code v) \<and>
   (current_version_history st \<noteq> [] \<longrightarrow>
      current_version_history (update_dependent_filters st) = current_version_history st \<and>
      (\<forall>it \<in> set (items (material_combo (update_dependent_filters st))).
          \<exists>w \<in> set (current_version_history st).
            it = (display_code (currentText (render_combo st)) w, Some w)))"
proof -
  have a: "\<exists>pre post. code v = pre @ ''_v'' @ ds @ post \<and> re_search_version pre = None \<and>
                  display_code fmt v = pre @ ''_'' @ pv @ post"
    if "find (\<lambda>p. get_file_format (PStr p) = fmt) (sg_path_to_geometry v) = Some p \<and>
        extract_version_from_path p = Some pv \<and> re_search_version (code v) = Some ds"
  proof -
    from that have "display_code fmt v = re_sub_version (CHR ''_'' # pv) (code v)"
      by (simp add: display_code_cases)
    with re_sub_version_first [of "code v" ds "CHR ''_'' # pv"] that show ?thesis
      by auto
  qed
  have b: "display_code fmt v = code v"
    if "find (\<lambda>p. get_file_format (PStr p) = fmt) (sg_path_to_geometry v) = None \<or>
        (find (\<lambda>p. get_file_format (PStr p) = fmt) (sg_path_to_geometry v) = Some p \<and>
         extract_version_from_path p = None) \<or>
        re_search_version (code v) = None"
    using that by (auto simp: display_code_cases re_sub_version_none split: option.splits)
  have c: "current_version_history (update_dependent_filters st) = current_version_history st \<and>
      (\<forall>it \<in> set (items (material_combo (update_dependent_filters st))).
          \<exists>w \<in> set (current_version_history st).
            it = (display_code (currentText (render_combo st)) w, Some w))"
    if "current_version_history st \<noteq> []"
    using update_dependent_filters_labels [OF that] by simp
  from a b c show ?thesis by blast
qed

theorem display_code_substitutes_first_path_witness:
  "display_code ''abc'' versioned_paths_record = ''chair_mdl_v007'' \<and>
   (\<exists>pre post. code versioned_paths_record = pre @ ''_v'' @ ''001'' @ post \<and>
        re_search_version pre = None \<and>
        display_code ''abc'' versioned_paths_record = pre @ ''_'' @ ''v007'' @ post) \<and>
   display_code ''bgeo.sc'' versioned_paths_record = code versioned_paths_record \<and>
   current_version_history (update_dependent_filters (loaded_ui None)) =
     current_version_history (loaded_ui None) \<and>
   map fst (items (material_combo (update_dependent_filters (loaded_ui None)))) =
     [''chair_mdl_v002'', ''chair_mdl_v001'']"
proof -
  have f: "find (\<lambda>p. get_file_format (PStr p) = ''abc'') (sg_path_to_geometry versioned_paths_record) =
      Some ''/p/v007/chair_v005.abc'' \<and>
      extract_version_from_path ''/p/v007/chair_v005.abc'' = Some ''v007'' \<and>
      re_search_version (code versioned_paths_record) = Some ''001''"
    by code_simp
  have n: "find (\<lambda>p. get_file_format (PStr p) = ''bgeo.sc'') (sg_path_to_geometry versioned_paths_record) = None"
    by code_simp
  have h: "current_version_history (loaded_ui None) \<noteq> []"
    by code_simp
  have l: "display_code ''abc'' versioned_paths_record = ''chair_mdl_v007'' \<and>
      map fst (items (material_combo (update_dependent_filters (loaded_ui None)))) =
        [''chair_mdl_v002'', ''chair_mdl_v001'']"
    by code_simp
  from display_code_substitutes_first_path
         [of "''abc''" versioned_paths_record "''/p/v007/chair_v005.abc''" "''v007''" "''001''"
             "loaded_ui None"]
       display_code_substitutes_first_path
         [of "''bgeo.sc''" versioned_paths_record "''/p/v007/chair_v005.abc''" "''v007''" "''001''"
             "loaded_ui None"]
       f n h l
  show ?thesis by blast
qed

text \<open>
  A record whose second \<open>abc\<close> path holds \<open>_v005\<close>, while its code holds \<open>_v001\<close>
  and its first \<open>abc\<close> path holds no version: substituting the path's segment into the
  code would give \<open>chair_mdl_v005\<close>; the label is the code.
\<close>

theorem display_code_counterexample:
  "sg_path_to_geometry second_path_record = [''/p/chair.abc'', ''/p/chair_v005.abc''] \<and>
   get_file_format (PStr ''/p/chair_v005.abc'') = ''abc'' \<and>
   re_search_version ''/p/chair_v005.abc'' = Some ''005'' \<and>
   re_search_version (code second_path_record) = Some ''001'' \<and>
   re_sub_version ''_v005'' (code second_path_record) = ''chair_mdl_v005'' \<and>
   display_code ''abc'' second_path_record = ''chair_mdl_v001''"
  by code_simp

end
